theory Spec2Isabelle
  imports Complex_Main
begin

section \<open>Python values used by the two import scripts\<close>

text \<open>
  A Python \<open>str\<close> is modelled as a \<open>string\<close> whose characters are the code points
  below 256. A value read from \<open>csv.DictReader\<close> is a \<open>string option\<close>: \<open>None\<close> is
  Python's \<open>None\<close>, which the reader stores for the missing fields of a short line.
  A raw row is a dictionary from column header to such a value; looking up a header
  that the file does not have raises \<open>KeyError\<close>.
\<close>

datatype exn =
    KeyError string
  | AttributeError
  | TypeError
  | ValueError
  | SinkError

type_synonym raw_row = "string \<rightharpoonup> string option"

definition getitem :: "raw_row \<Rightarrow> string \<Rightarrow> exn + string option" where
  "getitem row k = (case row k of None \<Rightarrow> Inl (KeyError k) | Some v \<Rightarrow> Inr v)"

subsection \<open>Characters and the string methods the scripts call\<close>

definition quote :: char where
  "quote = CHR 0x22"

definition digits :: string where
  "digits = ''0123456789''"

definition is_digit :: "char \<Rightarrow> bool" where
  "is_digit c = (c \<in> set digits)"

definition digit_val :: "char \<Rightarrow> nat" where
  "digit_val c = of_char c - 48"

definition nat_of_digits :: "string \<Rightarrow> nat" where
  "nat_of_digits ds = foldl (\<lambda>n c. 10 * n + digit_val c) 0 ds"

text \<open>
  \<open>str.isspace\<close> on the code points below 256: the characters that \<open>str.strip()\<close>
  removes and that \<open>\s\<close> matches in a regular expression over \<open>str\<close>.
\<close>

definition py_isspace :: "char \<Rightarrow> bool" where
  "py_isspace c = (let n = (of_char c :: nat) in
     (9 \<le> n \<and> n \<le> 13) \<or> (28 \<le> n \<and> n \<le> 32) \<or> n = 133 \<or> n = 160)"

text \<open>\<open>s.strip(chars)\<close> for a one-character \<open>chars\<close>, and \<open>s.strip()\<close>.\<close>

definition strip_char :: "char \<Rightarrow> string \<Rightarrow> string" where
  "strip_char q s = rev (dropWhile (\<lambda>c. c = q) (rev (dropWhile (\<lambda>c. c = q) s)))"

definition strip_ws :: "string \<Rightarrow> string" where
  "strip_ws s = rev (dropWhile py_isspace (rev (dropWhile py_isspace s)))"

text \<open>\<open>s.replace(old, new)\<close> for one-character \<open>old\<close> and \<open>new\<close>.\<close>

definition replace_char :: "char \<Rightarrow> char \<Rightarrow> string \<Rightarrow> string" where
  "replace_char old new s = map (\<lambda>c. if c = old then new else c) s"

definition lower_char :: "char \<Rightarrow> char" where
  "lower_char c = (let n = (of_char c :: nat) in
     if 65 \<le> n \<and> n \<le> 90 then char_of (n + 32) else c)"

subsection \<open>The conversion \<open>float(str)\<close>\<close>

text \<open>
  A Python float is kept as the exact rational that the text denotes, or one of the
  three special values; rounding to binary64 is outside the model (\<open>Finite q\<close> stands for
  the double nearest to \<open>q\<close>). The accepted texts are those of the language reference:
  optional surrounding whitespace, an optional sign, then \<open>inf\<close>, \<open>infinity\<close> or \<open>nan\<close>
  in any letter case, or digits with an optional point and an optional exponent; single
  underscores may separate digits. \<open>None\<close> stands for the \<open>ValueError\<close> of a rejected text.
\<close>

datatype pyfloat = Finite rat | PosInf | NegInf | NaN

text \<open>Underscores are allowed only between two digits; checked on the whole text.\<close>

fun underscores_ok :: "char \<Rightarrow> string \<Rightarrow> bool" where
  "underscores_ok prev [] = (prev \<noteq> CHR ''_'')"
| "underscores_ok prev (c # cs) =
     (if c = CHR ''_'' then is_digit prev \<and> underscores_ok c cs
      else (prev = CHR ''_'' \<longrightarrow> is_digit c) \<and> underscores_ok c cs)"

text \<open>
  The whitespace that \<open>float\<close> strips: the ASCII set of C's \<open>isspace\<close>, and the two
  non-ASCII spaces below 256, which are turned into blanks first.
\<close>

definition float_space :: "char \<Rightarrow> bool" where
  "float_space c = (let n = (of_char c :: nat) in
     (9 \<le> n \<and> n \<le> 13) \<or> n = 32 \<or> n = 133 \<or> n = 160)"

definition float_strip :: "string \<Rightarrow> string" where
  "float_strip s = rev (dropWhile float_space (rev (dropWhile float_space s)))"

definition split_sign :: "string \<Rightarrow> bool \<times> string" where
  "split_sign s = (case s of
       [] \<Rightarrow> (False, [])
     | c # r \<Rightarrow> if c = CHR ''-'' then (True, r)
               else if c = CHR ''+'' then (False, r) else (False, s))"

definition pow10 :: "int \<Rightarrow> rat" where
  "pow10 e = (if 0 \<le> e then 10 ^ nat e else 1 / 10 ^ nat (- e))"

text \<open>The text after the mantissa: nothing, or \<open>e\<close>/\<open>E\<close>, an optional sign and digits.\<close>

definition parse_exponent :: "string \<Rightarrow> int option" where
  "parse_exponent s = (case s of
       [] \<Rightarrow> Some 0
     | c # r \<Rightarrow>
         if c = CHR ''e'' \<or> c = CHR ''E'' then
           (let (neg, ds) = split_sign r in
            if ds \<noteq> [] \<and> list_all is_digit ds
            then Some (if neg then - int (nat_of_digits ds) else int (nat_of_digits ds))
            else None)
         else None)"

definition parse_finite :: "string \<Rightarrow> rat option" where
  "parse_finite s =
     (let ip = takeWhile is_digit s;
          r1 = dropWhile is_digit s;
          (fp, r2) = (case r1 of
                         [] \<Rightarrow> ([], [])
                       | c # r \<Rightarrow> if c = CHR ''.''
                                 then (takeWhile is_digit r, dropWhile is_digit r)
                                 else ([], r1))
      in if ip = [] \<and> fp = [] then None
         else (case parse_exponent r2 of
                 None \<Rightarrow> None
               | Some e \<Rightarrow>
                   Some (of_nat (nat_of_digits (ip @ fp)) * pow10 (e - int (length fp)))))"

definition parse_float_body :: "string \<Rightarrow> pyfloat option" where
  "parse_float_body t =
     (let (neg, r) = split_sign t; w = map lower_char r in
      if w = ''inf'' \<or> w = ''infinity'' then Some (if neg then NegInf else PosInf)
      else if w = ''nan'' then Some NaN
      else (case parse_finite r of
              None \<Rightarrow> None
            | Some q \<Rightarrow> Some (Finite (if neg then - q else q))))"

definition py_float :: "string \<Rightarrow> pyfloat option" where
  "py_float s =
     (if \<not> underscores_ok (CHR 0x00) s then None
      else (let t = float_strip (filter (\<lambda>c. c \<noteq> CHR ''_'') s) in
            if t = [] then None else parse_float_body t))"

subsection \<open>\<open>datetime.strptime\<close>\<close>

text \<open>
  A \<open>datetime\<close> without its microseconds, which both formats leave at zero.
\<close>

record datetime =
  dt_year :: nat
  dt_month :: nat
  dt_day :: nat
  dt_hour :: nat
  dt_minute :: nat
  dt_second :: nat

definition is_leap :: "nat \<Rightarrow> bool" where
  "is_leap y = (y mod 4 = 0 \<and> (y mod 100 \<noteq> 0 \<or> y mod 400 = 0))"

definition days_in_month :: "nat \<Rightarrow> nat \<Rightarrow> nat" where
  "days_in_month y m =
     (if m = 2 then (if is_leap y then 29 else 28)
      else if m = 4 \<or> m = 6 \<or> m = 9 \<or> m = 11 then 30 else 31)"

text \<open>The range checks of the \<open>date\<close> and \<open>datetime\<close> constructors.\<close>

definition valid_datetime :: "datetime \<Rightarrow> bool" where
  "valid_datetime d =
     (1 \<le> dt_year d \<and> dt_year d \<le> 9999 \<and> 1 \<le> dt_month d \<and> dt_month d \<le> 12 \<and>
      1 \<le> dt_day d \<and> dt_day d \<le> days_in_month (dt_year d) (dt_month d) \<and>
      dt_hour d \<le> 23 \<and> dt_minute d \<le> 59 \<and> dt_second d \<le> 59)"

text \<open>
  \<open>strptime\<close> turns the format into a regular expression and matches it at the start
  of the text with the backtracking matcher of \<open>re\<close>. Each directive is an ordered list
  of alternatives, each alternative a sequence of character classes:
  \<^verbatim>\<open>%Y  \d\d\d\d\<close>,
  \<^verbatim>\<open>%m  1[0-2]|0[1-9]|[1-9]\<close>,
  \<^verbatim>\<open>%d  3[0-1]|[1-2]\d|0[1-9]|[1-9]| [1-9]\<close>,
  \<^verbatim>\<open>%H  2[0-3]|[0-1]\d|\d\<close>,
  \<^verbatim>\<open>%M  [0-5]\d|\d\<close>,
  \<^verbatim>\<open>%S  6[0-1]|[0-5]\d|\d\<close>.
  A blank of the format stands for \<^verbatim>\<open>\s+\<close>, any other character for itself.
\<close>

datatype item = Directive "string list list" | Lit char | Spaces

definition re_Y :: item where
  "re_Y = Directive [[digits, digits, digits, digits]]"

definition re_m :: item where
  "re_m = Directive [[''1'', ''012''], [''0'', ''123456789''], [''123456789'']]"

definition re_d :: item where
  "re_d = Directive [[''3'', ''01''], [''12'', digits], [''0'', ''123456789''],
                     [''123456789''], ['' '', ''123456789'']]"

definition re_H :: item where
  "re_H = Directive [[''2'', ''0123''], [''01'', digits], [digits]]"

definition re_M :: item where
  "re_M = Directive [[''012345'', digits], [digits]]"

definition re_S :: item where
  "re_S = Directive [[''6'', ''01''], [''012345'', digits], [digits]]"

text \<open>One alternative against the start of the text: the matched text and the rest.\<close>

fun match_classes :: "string list \<Rightarrow> string \<Rightarrow> (string \<times> string) option" where
  "match_classes [] s = Some ([], s)"
| "match_classes (cls # clss) [] = None"
| "match_classes (cls # clss) (c # s) =
     (if c \<in> set cls
      then (case match_classes clss s of
              None \<Rightarrow> None
            | Some (m, r) \<Rightarrow> Some (c # m, r))
      else None)"

text \<open>
  All the ways one item matches at the start of the text, in the order in which the
  backtracking matcher tries them: the alternatives from left to right, and for the
  greedy \<^verbatim>\<open>\s+\<close> the longest run of whitespace first.
\<close>

fun match_item :: "item \<Rightarrow> string \<Rightarrow> (string list \<times> string) list" where
  "match_item (Directive alts) s =
     List.map_filter (\<lambda>alt. case match_classes alt s of
                               None \<Rightarrow> None
                             | Some (m, r) \<Rightarrow> Some ([m], r)) alts"
| "match_item (Lit c) s =
     (case s of [] \<Rightarrow> [] | x # r \<Rightarrow> if x = c then [([], r)] else [])"
| "match_item Spaces s =
     map (\<lambda>k. ([], drop k s)) (rev [1 ..< Suc (length (takeWhile py_isspace s))])"

text \<open>The matches of a whole pattern with the texts of its groups, in the same order.\<close>

fun match_items :: "item list \<Rightarrow> string \<Rightarrow> (string list \<times> string) list" where
  "match_items [] s = [([], s)]"
| "match_items (i # is) s =
     concat (map (\<lambda>(g, r). map (\<lambda>(gs, r'). (g @ gs, r')) (match_items is r))
                 (match_item i s))"

text \<open>\<open>int\<close> of a group's text (the day may carry a leading blank).\<close>

definition group_int :: "string \<Rightarrow> nat" where
  "group_int g = nat_of_digits (dropWhile (\<lambda>c. c = CHR '' '') g)"

text \<open>
  The first match is taken; text left over after it, or field values that the
  constructors refuse, raise \<open>ValueError\<close> (\<open>None\<close> here). Fields that the format does
  not have keep their defaults, day 1 and time 0:00:00.
\<close>

definition strptime :: "item list \<Rightarrow> (nat list \<Rightarrow> datetime) \<Rightarrow> string \<Rightarrow> datetime option" where
  "strptime pattern build s =
     (case match_items pattern s of
        [] \<Rightarrow> None
      | (gs, r) # _ \<Rightarrow>
          if r \<noteq> [] then None
          else (let d = build (map group_int gs) in
                if valid_datetime d then Some d else None))"

text \<open>The three formats of the scripts.\<close>

definition fmt_Ym :: "item list" where
  "fmt_Ym = [re_Y, Lit CHR ''-'', re_m]"

definition fmt_Ymd :: "item list" where
  "fmt_Ymd = [re_Y, Lit CHR ''-'', re_m, Lit CHR ''-'', re_d]"

definition fmt_YmdHMS :: "item list" where
  "fmt_YmdHMS = [re_Y, Lit CHR ''-'', re_m, Lit CHR ''-'', re_d, Spaces,
                 re_H, Lit CHR '':'', re_M, Lit CHR '':'', re_S]"

definition build_datetime :: "nat list \<Rightarrow> datetime" where
  "build_datetime vs =
     \<lparr>dt_year = (if 0 < length vs then vs ! 0 else 1900),
      dt_month = (if 1 < length vs then vs ! 1 else 1),
      dt_day = (if 2 < length vs then vs ! 2 else 1),
      dt_hour = (if 3 < length vs then vs ! 3 else 0),
      dt_minute = (if 4 < length vs then vs ! 4 else 0),
      dt_second = (if 5 < length vs then vs ! 5 else 0)\<rparr>"

definition strptime_Ym :: "string \<Rightarrow> datetime option" where
  "strptime_Ym s = strptime fmt_Ym build_datetime s"

definition strptime_Ymd :: "string \<Rightarrow> datetime option" where
  "strptime_Ymd s = strptime fmt_Ymd build_datetime s"

definition strptime_YmdHMS :: "string \<Rightarrow> datetime option" where
  "strptime_YmdHMS s = strptime fmt_YmdHMS build_datetime s"

section \<open>Documents, the sink and the console\<close>

text \<open>
  A document is the Python \<open>dict\<close> that a script builds for one row, kept as the list of
  its items in insertion order. The \<open>_id\<close> that the sink adds on insertion is left out.
\<close>

datatype pyval = PNone | PStr string | PFloat pyfloat | PDate datetime

type_synonym document = "(string \<times> pyval) list"

definition of_raw :: "string option \<Rightarrow> pyval" where
  "of_raw v = (case v of None \<Rightarrow> PNone | Some s \<Rightarrow> PStr s)"

definition of_date :: "datetime option \<Rightarrow> pyval" where
  "of_date v = (case v of None \<Rightarrow> PNone | Some d \<Rightarrow> PDate d)"

definition of_number :: "pyfloat option \<Rightarrow> pyval" where
  "of_number v = (case v of None \<Rightarrow> PNone | Some x \<Rightarrow> PFloat x)"

text \<open>Truth value of a document field in an \<open>if\<close>.\<close>

fun truthy :: "pyval \<Rightarrow> bool" where
  "truthy PNone = False"
| "truthy (PStr s) = (s \<noteq> [])"
| "truthy (PFloat x) = (x \<noteq> Finite 0)"
| "truthy (PDate d) = True"

text \<open>
  A collection of the document store: its documents in insertion order and the indexes
  registered on it, each with its field and its \<open>unique\<close> and \<open>sparse\<close> options.
\<close>

record collection =
  docs :: "document list"
  indexes :: "(string \<times> bool \<times> bool) list"

text \<open>
  Whether the store takes an insertion is its own business (a uniqueness constraint, a
  lost connection): it is the parameter \<open>accepts\<close>. A refused \<open>insert_one\<close> raises.
\<close>

type_synonym acceptance = "collection \<Rightarrow> document \<Rightarrow> bool"

definition insert_one :: "acceptance \<Rightarrow> collection \<Rightarrow> document \<Rightarrow> exn + collection" where
  "insert_one accepts c d =
     (if accepts c d then Inr (c\<lparr>docs := docs c @ [d]\<rparr>) else Inl SinkError)"

text \<open>\<open>find_one({k: v})\<close>: the first document whose field \<open>k\<close> equals \<open>v\<close>.\<close>

definition find_one :: "collection \<Rightarrow> string \<Rightarrow> pyval \<Rightarrow> document option" where
  "find_one c k v = find (\<lambda>d. map_of d k = Some v) (docs c)"

definition count_documents :: "collection \<Rightarrow> nat" where
  "count_documents c = length (docs c)"

definition delete_many :: "collection \<Rightarrow> collection" where
  "delete_many c = c\<lparr>docs := []\<rparr>"

text \<open>
  \<open>create_index\<close>: a unique index cannot be built over two documents with the same value
  of the field. A sparse index leaves out the documents that lack the field; otherwise
  a missing field counts as null.
\<close>

definition index_keys :: "collection \<Rightarrow> string \<Rightarrow> bool \<Rightarrow> pyval list" where
  "index_keys c k sparse =
     (if sparse then List.map_filter (\<lambda>d. map_of d k) (docs c)
      else map (\<lambda>d. case map_of d k of None \<Rightarrow> PNone | Some v \<Rightarrow> v) (docs c))"

definition create_index :: "collection \<Rightarrow> string \<Rightarrow> bool \<Rightarrow> bool \<Rightarrow> exn + collection" where
  "create_index c k unique sparse =
     (if unique \<and> \<not> distinct (index_keys c k sparse) then Inl SinkError
      else Inr (c\<lparr>indexes := indexes c @ [(k, unique, sparse)]\<rparr>))"

text \<open>A store that refuses exactly the insertions that a registered unique index forbids.\<close>

definition accepts_unique :: acceptance where
  "accepts_unique c d =
     (\<forall>(k, unique, sparse) \<in> set (indexes c).
        unique \<longrightarrow> distinct (index_keys (c\<lparr>docs := docs c @ [d]\<rparr>) k sparse))"

text \<open>What the scripts print, one constructor for each message.\<close>

datatype event =
    Progress nat
  | Imported_ok nat
  | Import_error exn
  | Import_completed
  | Import_failed
  | Warn_date string
  | Warn_number string
  | Skipping pyval
  | Row_error exn
  | Cleared
  | Summary nat nat nat
  | Indexes_created
  | Fatal exn

section \<open>The timesheet script: \<open>import_clockodo_data.py\<close>\<close>

subsection \<open>\<open>parse_german_number\<close>\<close>

text \<open>
  \<open>if not value or value == '': return 0.0\<close>, else the conversion of the text with
  every comma replaced by a point; the conversion's \<open>ValueError\<close> is not caught here.
\<close>

definition parse_german_number :: "string option \<Rightarrow> exn + pyfloat" where
  "parse_german_number v = (case v of
       None \<Rightarrow> Inr (Finite 0)
     | Some s \<Rightarrow>
         if s = [] then Inr (Finite 0)
         else (case py_float (replace_char CHR '','' CHR ''.'' s) of
                 None \<Rightarrow> Inl ValueError
               | Some x \<Rightarrow> Inr x))"

subsection \<open>\<open>parse_month\<close>\<close>

text \<open>
  \<open>strptime\<close> raises \<open>TypeError\<close> for \<open>None\<close>, which \<open>except ValueError\<close> does not
  catch; a \<open>ValueError\<close> becomes \<open>None\<close> and nothing is printed.
\<close>

definition parse_month :: "string option \<Rightarrow> exn + datetime option" where
  "parse_month month_str = (case month_str of
       None \<Rightarrow> Inl TypeError
     | Some s \<Rightarrow> Inr (strptime_Ym s))"

subsection \<open>The document of one row\<close>

definition bind_exn :: "exn + 'a \<Rightarrow> ('a \<Rightarrow> exn + 'b) \<Rightarrow> exn + 'b" where
  "bind_exn m f = (case m of Inl e \<Rightarrow> Inl e | Inr x \<Rightarrow> f x)"

text \<open>\<open>v.strip('"')\<close>: a method call on \<open>None\<close> raises \<open>AttributeError\<close>.\<close>

definition strip_quotes :: "string option \<Rightarrow> exn + string" where
  "strip_quotes v = (case v of None \<Rightarrow> Inl AttributeError | Some s \<Rightarrow> Inr (strip_char quote s))"

text \<open>
  The dictionary display of the loop body, its items evaluated from top to bottom;
  \<open>now\<close> is the reading of \<open>datetime.utcnow()\<close>.
\<close>

definition clockodo_document :: "datetime \<Rightarrow> raw_row \<Rightarrow> exn + document" where
  "clockodo_document now row =
     bind_exn (getitem row ''Kunde'') (\<lambda>v1. bind_exn (strip_quotes v1) (\<lambda>kunde.
     bind_exn (getitem row ''Projekt'') (\<lambda>v2. bind_exn (strip_quotes v2) (\<lambda>projekt.
     bind_exn (getitem row ''Monat'') (\<lambda>monat.
     bind_exn (getitem row ''Monat'') (\<lambda>v3. bind_exn (parse_month v3) (\<lambda>monat_date.
     bind_exn (getitem row ''Leistung'') (\<lambda>v4. bind_exn (strip_quotes v4) (\<lambda>leistung.
     bind_exn (getitem row ''Mitarbeiter'') (\<lambda>v5. bind_exn (strip_quotes v5) (\<lambda>mitarbeiter.
     bind_exn (getitem row ''Stunden'') (\<lambda>v6. bind_exn (parse_german_number v6) (\<lambda>stunden.
     bind_exn (getitem row ''Umsatz in EUR'') (\<lambda>v7. bind_exn (strip_quotes v7) (\<lambda>v8.
     bind_exn (parse_german_number (Some v8)) (\<lambda>umsatz_eur.
       Inr [(''kunde'', PStr kunde),
            (''projekt'', PStr projekt),
            (''monat'', of_raw monat),
            (''monat_date'', of_date monat_date),
            (''leistung'', PStr leistung),
            (''mitarbeiter'', PStr mitarbeiter),
            (''stunden'', PFloat stunden),
            (''umsatz_eur'', PFloat umsatz_eur),
            (''imported_at'', PDate now)]))))))))))))))))"

subsection \<open>\<open>import_clockodo_data\<close> and the end of \<open>main\<close>\<close>

record clockodo_state =
  ts_coll :: collection
  ts_imported :: nat
  ts_out :: "event list"

text \<open>
  The \<open>for\<close> loop over the reader. \<open>clock i\<close> is the time read for the row at position
  \<open>i\<close>. There is no \<open>try\<close> inside the loop: the first exception leaves it, with the
  state reached so far.
\<close>

fun clockodo_loop ::
  "acceptance \<Rightarrow> (nat \<Rightarrow> datetime) \<Rightarrow> nat \<Rightarrow> raw_row list \<Rightarrow> clockodo_state
     \<Rightarrow> exn option \<times> clockodo_state" where
  "clockodo_loop accepts clock i [] st = (None, st)"
| "clockodo_loop accepts clock i (row # rows) st =
     (case clockodo_document (clock i) row of
        Inl e \<Rightarrow> (Some e, st)
      | Inr document \<Rightarrow>
          (case insert_one accepts (ts_coll st) document of
             Inl e \<Rightarrow> (Some e, st)
           | Inr c \<Rightarrow>
               (let n = ts_imported st + 1;
                    st' = st\<lparr>ts_coll := c, ts_imported := n,
                             ts_out := ts_out st @ (if n mod 100 = 0 then [Progress n] else [])\<rparr>
                in clockodo_loop accepts clock (Suc i) rows st')))"

text \<open>
  The function returns \<open>True\<close> after the loop and \<open>False\<close> from its \<open>except Exception\<close>;
  the collection is returned with it to make the effect on the store visible.
\<close>

definition import_clockodo_data ::
  "acceptance \<Rightarrow> (nat \<Rightarrow> datetime) \<Rightarrow> raw_row list \<Rightarrow> collection
     \<Rightarrow> bool \<times> collection \<times> event list" where
  "import_clockodo_data accepts clock rows c =
     (case clockodo_loop accepts clock 0 rows \<lparr>ts_coll = c, ts_imported = 0, ts_out = []\<rparr> of
        (None, st) \<Rightarrow> (True, ts_coll st, ts_out st @ [Imported_ok (ts_imported st)])
      | (Some e, st) \<Rightarrow> (False, ts_coll st, ts_out st @ [Import_error e]))"

text \<open>The end of \<open>main\<close>: the exit status, the collection and everything printed.\<close>

definition clockodo_main ::
  "acceptance \<Rightarrow> (nat \<Rightarrow> datetime) \<Rightarrow> raw_row list \<Rightarrow> collection
     \<Rightarrow> nat \<times> collection \<times> event list" where
  "clockodo_main accepts clock rows c =
     (case import_clockodo_data accepts clock rows c of
        (success, c', out) \<Rightarrow>
          if success then (0, c', out @ [Import_completed])
          else (1, c', out @ [Import_failed]))"

section \<open>The deal script: \<open>import_deals_csv.py\<close>\<close>

subsection \<open>\<open>parse_date\<close> and \<open>parse_number\<close>\<close>

text \<open>Both return their value together with the warnings they print.\<close>

definition parse_date :: "string option \<Rightarrow> datetime option \<times> event list" where
  "parse_date date_str = (case date_str of
       None \<Rightarrow> (None, [])
     | Some s \<Rightarrow>
         if s = [] \<or> strip_ws s = [] then (None, [])
         else (case (if CHR '' '' \<in> set s then strptime_YmdHMS s else strptime_Ymd s) of
                 None \<Rightarrow> (None, [Warn_date s])
               | Some d \<Rightarrow> (Some d, [])))"

definition parse_number :: "string option \<Rightarrow> pyfloat option \<times> event list" where
  "parse_number value_str = (case value_str of
       None \<Rightarrow> (None, [])
     | Some s \<Rightarrow>
         if s = [] \<or> strip_ws s = [] then (None, [])
         else (case py_float s of
                 None \<Rightarrow> (None, [Warn_number s])
               | Some x \<Rightarrow> (Some x, [])))"

subsection \<open>\<open>transform_deal_row\<close>\<close>

text \<open>
  The dictionary display of \<open>transform_deal_row\<close> as a table: the key of the document,
  the column header it is read from, and what is done with the raw value (taken as it
  is, \<open>parse_number\<close>, or \<open>parse_date\<close>). \<open>CHR 0xE4\<close> is the a-umlaut of the headers.
\<close>

datatype conv = Str | Num | Date

definition deal_columns :: "(string \<times> string \<times> conv) list" where
  "deal_columns =
     [(''title'', ''Deal - Titel'', Str),
      (''organization'', ''Deal - Organisation'', Str),
      (''value'', ''Deal - Wert'', Num),
      (''status'', ''Deal - Status'', Str),
      (''loss_reason'', ''Deal - Verlustgrund'', Str),
      (''owner'', ''Deal - Besitzer'', Str),
      (''created_date'', ''Deal - Deal erstellt'', Date),
      (''lost_date'', ''Deal - Datum des verlorenen Deals'', Date),
      (''phase'', ''Deal - Phase'', Str),
      (''pending_activities'', ''Deal - Zu erledigende Aktivit'' @ [CHR 0xE4] @ ''ten'', Num),
      (''contact_person'', ''Deal - Kontaktperson'', Str),
      (''closed_date'', ''Deal - Deal abgeschlossen am'', Date),
      (''completed_activities'', ''Deal - Erledigte Aktivit'' @ [CHR 0xE4] @ ''ten'', Num),
      (''email_count'', ''Deal - Anzahl E-Mail-Nachrichten'', Num),
      (''deal_id'', ''Deal - ID'', Str),
      (''label'', ''Deal - Label'', Str),
      (''last_activity_date'', ''Deal - Datum der letzten Aktivit'' @ [CHR 0xE4] @ ''t'', Date),
      (''last_email_received'', ''Deal - Letzte E-Mail erhalten'', Date),
      (''last_email_sent'', ''Deal - Letzte E-Mail gesendet'', Date),
      (''last_phase_change'', ''Deal - Letzte Phasen'' @ [CHR 0xE4] @ ''nderung'', Date),
      (''next_activity_date'', ''Deal - Datum n'' @ [CHR 0xE4] @ ''chste Aktivit'' @ [CHR 0xE4] @ ''t'', Date),
      (''probability'', ''Deal - Wahrscheinlichkeit'', Num),
      (''total_activities'', ''Deal - Gesamtzahl der Aktivit'' @ [CHR 0xE4] @ ''ten'', Num),
      (''last_update'', ''Deal - Zeit der Aktualisierung'', Date),
      (''visibility'', ''Deal - Sichtbar f'' @ [CHR 0xFC] @ ''r'', Str),
      (''weighted_value'', ''Deal - Gewichteter Wert'', Num),
      (''pipeline'', ''Deal - Pipeline'', Str),
      (''won_date'', ''Deal - Datum des gewonnenen Deals'', Date)]"

fun convert :: "conv \<Rightarrow> string option \<Rightarrow> pyval \<times> event list" where
  "convert Str v = (of_raw v, [])"
| "convert Num v = (case parse_number v of (x, w) \<Rightarrow> (of_number x, w))"
| "convert Date v = (case parse_date v of (d, w) \<Rightarrow> (of_date d, w))"

text \<open>
  The items are evaluated in order. A header that the row lacks raises \<open>KeyError\<close> and
  ends the evaluation; the warnings printed before it stay printed.
\<close>

fun transform_fields ::
  "raw_row \<Rightarrow> (string \<times> string \<times> conv) list \<Rightarrow> (exn + document) \<times> event list" where
  "transform_fields row [] = (Inr [], [])"
| "transform_fields row ((k, col, cv) # fs) =
     (case row col of
        None \<Rightarrow> (Inl (KeyError col), [])
      | Some v \<Rightarrow>
          (case convert cv v of
             (x, w) \<Rightarrow>
               (case transform_fields row fs of
                  (Inl e, w') \<Rightarrow> (Inl e, w @ w')
                | (Inr d, w') \<Rightarrow> (Inr ((k, x) # d), w @ w'))))"

definition transform_deal_row :: "datetime \<Rightarrow> raw_row \<Rightarrow> (exn + document) \<times> event list" where
  "transform_deal_row now row =
     (case transform_fields row deal_columns of
        (Inl e, w) \<Rightarrow> (Inl e, w)
      | (Inr d, w) \<Rightarrow> (Inr (d @ [(''imported_at'', PDate now)]), w))"

subsection \<open>The loop of \<open>main\<close>\<close>

record deals_state =
  dl_coll :: collection
  dl_imported :: nat
  dl_skipped :: nat
  dl_out :: "event list"

text \<open>
  One pass of the loop body, inside its \<open>try\<close>: transform, look the identifier up when
  it is truthy, skip or insert. Every exception ends in the \<open>except\<close> branch, which
  prints it and goes on with the next row.
\<close>

definition deals_step :: "acceptance \<Rightarrow> datetime \<Rightarrow> raw_row \<Rightarrow> deals_state \<Rightarrow> deals_state" where
  "deals_step accepts now row st =
     (case transform_deal_row now row of
        (r, w) \<Rightarrow>
          (let st1 = st\<lparr>dl_out := dl_out st @ w\<rparr> in
           case r of
             Inl e \<Rightarrow> st1\<lparr>dl_out := dl_out st1 @ [Row_error e]\<rparr>
           | Inr deal_doc \<Rightarrow>
               (case map_of deal_doc ''deal_id'' of
                  None \<Rightarrow> st1\<lparr>dl_out := dl_out st1 @ [Row_error (KeyError ''deal_id'')]\<rparr>
                | Some deal_id \<Rightarrow>
                    if truthy deal_id \<and> find_one (dl_coll st1) ''deal_id'' deal_id \<noteq> None
                    then st1\<lparr>dl_skipped := dl_skipped st1 + 1,
                             dl_out := dl_out st1 @ [Skipping deal_id]\<rparr>
                    else (case insert_one accepts (dl_coll st1) deal_doc of
                            Inl e \<Rightarrow> st1\<lparr>dl_out := dl_out st1 @ [Row_error e]\<rparr>
                          | Inr c \<Rightarrow>
                              (let n = dl_imported st1 + 1 in
                               st1\<lparr>dl_coll := c, dl_imported := n,
                                    dl_out := dl_out st1 @
                                      (if n mod 10 = 0 then [Progress n] else [])\<rparr>)))))"

fun deals_loop ::
  "acceptance \<Rightarrow> (nat \<Rightarrow> datetime) \<Rightarrow> nat \<Rightarrow> raw_row list \<Rightarrow> deals_state \<Rightarrow> deals_state" where
  "deals_loop accepts clock i [] st = st"
| "deals_loop accepts clock i (row # rows) st =
     deals_loop accepts clock (Suc i) rows (deals_step accepts (clock i) row st)"

subsection \<open>\<open>main\<close> from the prompt to the indexes\<close>

text \<open>The five \<open>create_index\<close> calls, stopped by the first that raises.\<close>

definition create_indexes :: "collection \<Rightarrow> exn + collection" where
  "create_indexes c =
     bind_exn (create_index c ''deal_id'' True True) (\<lambda>c1.
     bind_exn (create_index c1 ''status'' False False) (\<lambda>c2.
     bind_exn (create_index c2 ''owner'' False False) (\<lambda>c3.
     bind_exn (create_index c3 ''organization'' False False) (\<lambda>c4.
       create_index c4 ''created_date'' False False))))"

text \<open>
  \<open>response\<close> is the answer typed at the prompt, read only when the collection is not
  empty. The result is the exit status, the collection and the final state of the loop.
\<close>

definition deals_main ::
  "acceptance \<Rightarrow> (nat \<Rightarrow> datetime) \<Rightarrow> string \<Rightarrow> raw_row list \<Rightarrow> collection
     \<Rightarrow> nat \<times> deals_state" where
  "deals_main accepts clock response rows c =
     (let cleared = (0 < count_documents c \<and> map lower_char response = ''y'');
          c0 = (if cleared then delete_many c else c);
          st0 = \<lparr>dl_coll = c0, dl_imported = 0, dl_skipped = 0,
                 dl_out = (if cleared then [Cleared] else [])\<rparr>;
          st = deals_loop accepts clock 0 rows st0;
          st' = st\<lparr>dl_out := dl_out st @
                   [Summary (dl_imported st) (dl_skipped st) (count_documents (dl_coll st))]\<rparr>
      in case create_indexes (dl_coll st') of
           Inl e \<Rightarrow> (1, st'\<lparr>dl_out := dl_out st' @ [Fatal e]\<rparr>)
         | Inr c' \<Rightarrow> (0, st'\<lparr>dl_coll := c', dl_out := dl_out st' @ [Indexes_created]\<rparr>))"

section \<open>Notions used to state the properties\<close>

text \<open>
  A plain decimal numeral: an optional sign, an integer part \<open>ip\<close> and a fractional
  part \<open>fp\<close>, both non-empty runs of digits, around the separator. Its value is
  \<open>signed sg (decimal_value ip fp)\<close>.
\<close>

definition decimal_value :: "string \<Rightarrow> string \<Rightarrow> rat" where
  "decimal_value ip fp = of_nat (nat_of_digits ip) + of_nat (nat_of_digits fp) / 10 ^ length fp"

definition is_sign :: "string \<Rightarrow> bool" where
  "is_sign sg = (sg = [] \<or> sg = ''-'' \<or> sg = ''+'')"

definition signed :: "string \<Rightarrow> rat \<Rightarrow> rat" where
  "signed sg q = (if sg = ''-'' then - q else q)"

text \<open>
  The month as \<open>strptime\<close> reads it: one digit from 1 to 9, or two digits from 01 to 12.
  The year is four digits and not 0000. \<open>month_start\<close> is the first day of a month
  at midnight. \<open>shape_YYYY_MM\<close> is the shape named in the specification: four
  digits, a hyphen, two digits.
\<close>

definition month_texts :: "string list" where
  "month_texts =
     map (\<lambda>c. [c]) ''123456789'' @ map (\<lambda>c. [CHR ''0'', c]) ''123456789''
       @ [''10'', ''11'', ''12'']"

definition month_start :: "nat \<Rightarrow> nat \<Rightarrow> datetime" where
  "month_start y m = \<lparr>dt_year = y, dt_month = m, dt_day = 1, dt_hour = 0, dt_minute = 0, dt_second = 0\<rparr>"

definition year_numeral :: "string \<Rightarrow> nat option" where
  "year_numeral ys =
     (if length ys = 4 \<and> list_all is_digit ys \<and> 0 < nat_of_digits ys
      then Some (nat_of_digits ys) else None)"

definition month_numeral :: "string \<Rightarrow> nat option" where
  "month_numeral ms = (if ms \<in> set month_texts then Some (nat_of_digits ms) else None)"

definition shape_YYYY_MM :: "string \<Rightarrow> bool" where
  "shape_YYYY_MM s =
     (length s = 7 \<and> list_all is_digit (take 4 s) \<and> s ! 4 = CHR ''-'' \<and>
      list_all is_digit (drop 5 s))"

text \<open>
  \<open>blank s\<close>: the text is empty or made of whitespace only. \<open>field n t\<close>: the text \<open>t\<close> is
  \<open>n\<close> digits.
\<close>

definition blank :: "string \<Rightarrow> bool" where
  "blank s = list_all py_isspace s"

definition field :: "nat \<Rightarrow> string \<Rightarrow> bool" where
  "field n t = (length t = n \<and> list_all is_digit t)"

definition date_text :: "string \<Rightarrow> string \<Rightarrow> string \<Rightarrow> string" where
  "date_text ys ms ds = ys @ ''-'' @ ms @ ''-'' @ ds"

definition time_text :: "string \<Rightarrow> string \<Rightarrow> string \<Rightarrow> string" where
  "time_text hs ns ss = hs @ '':'' @ ns @ '':'' @ ss"

definition stamp :: "string \<Rightarrow> string \<Rightarrow> string \<Rightarrow> string \<Rightarrow> string \<Rightarrow> string \<Rightarrow> datetime" where
  "stamp ys ms ds hs ns ss =
     \<lparr>dt_year = nat_of_digits ys, dt_month = nat_of_digits ms, dt_day = nat_of_digits ds,
      dt_hour = nat_of_digits hs, dt_minute = nat_of_digits ns, dt_second = nat_of_digits ss\<rparr>"

text \<open>
  \<open>plain_decimal s\<close>: the text is a decimal numeral in the decimal-point convention, an
  optional sign and digits, with or without a point followed by more digits.
\<close>

definition plain_decimal :: "string \<Rightarrow> bool" where
  "plain_decimal s =
     (\<exists>sg ip fp. is_sign sg \<and> ip \<noteq> [] \<and> list_all is_digit ip \<and> list_all is_digit fp \<and>
        (s = sg @ ip \<or> (fp \<noteq> [] \<and> s = sg @ ip @ ''.'' @ fp)))"

text \<open>
  \<open>with_id c v\<close>: the documents of the collection whose deal identifier is \<open>v\<close>.
  \<open>unique_ids c\<close>: no non-empty identifier occurs in two documents. \<open>row_errors\<close> counts
  the rows reported with \<open>Error processing row\<close>.
\<close>

definition with_id :: "collection \<Rightarrow> pyval \<Rightarrow> document list" where
  "with_id c v = filter (\<lambda>d. map_of d ''deal_id'' = Some v) (docs c)"

definition unique_ids :: "collection \<Rightarrow> bool" where
  "unique_ids c = (\<forall>v. truthy v \<longrightarrow> length (with_id c v) \<le> 1)"

fun is_row_error :: "event \<Rightarrow> bool" where
  "is_row_error (Row_error e) = True"
| "is_row_error ev = False"

definition row_errors :: "event list \<Rightarrow> nat" where
  "row_errors out = length (filter is_row_error out)"

text \<open>
  A store that takes every insertion, and the state in which a run starts.
\<close>

definition accept_all :: acceptance where
  "accept_all c d = True"

text \<open>Example inputs: a clock, an empty collection, a timesheet row and a deal row.\<close>

definition example_time :: datetime where
  "example_time = \<lparr>dt_year = 2025, dt_month = 9, dt_day = 5, dt_hour = 10, dt_minute = 42,
                    dt_second = 0\<rparr>"

definition example_clock :: "nat \<Rightarrow> datetime" where
  "example_clock i = example_time"

definition empty_collection :: collection where
  "empty_collection = \<lparr>docs = [], indexes = []\<rparr>"

definition timesheet_row :: "string \<Rightarrow> string \<Rightarrow> string \<Rightarrow> raw_row" where
  "timesheet_row kunde monat stunden =
     [''Kunde'' \<mapsto> Some kunde, ''Projekt'' \<mapsto> Some ''Web'', ''Monat'' \<mapsto> Some monat,
      ''Leistung'' \<mapsto> Some ''Dev'', ''Mitarbeiter'' \<mapsto> Some ''Eva'',
      ''Stunden'' \<mapsto> Some stunden, ''Umsatz in EUR'' \<mapsto> Some ''100,00'']"

text \<open>
  An example deal row with every column empty except the identifier, the document it
  is transformed into, and the state in which the loop of the deal script starts.
\<close>

definition deal_row :: "string \<Rightarrow> raw_row" where
  "deal_row ident =
     (\<lambda>col. if col \<in> set (map (\<lambda>(k, col, cv). col) deal_columns)
            then Some (Some (if col = ''Deal - ID'' then ident else []))
            else None)"

definition deal_doc :: "string \<Rightarrow> datetime \<Rightarrow> document" where
  "deal_doc ident now =
     map (\<lambda>(k, col, cv). (k, if k = ''deal_id'' then PStr ident
                              else if cv = Str then PStr [] else PNone)) deal_columns
     @ [(''imported_at'', PDate now)]"

definition deals_start :: "collection \<Rightarrow> deals_state" where
  "deals_start c = \<lparr>dl_coll = c, dl_imported = 0, dl_skipped = 0, dl_out = []\<rparr>"

text \<open>A store that refuses every insertion, as after a lost connection.\<close>

definition refuse_all :: acceptance where
  "refuse_all c d = False"

definition indexed_collection :: collection where
  "indexed_collection =
     \<lparr>docs = [deal_doc [] example_time], indexes = [(''deal_id'', True, True)]\<rparr>"

text \<open>A collection that already holds one document with an empty identifier.\<close>

definition unindexed_collection :: collection where
  "unindexed_collection = \<lparr>docs = [deal_doc [] example_time], indexes = []\<rparr>"

text \<open>
  \<open>strip_one_layer q s\<close> is the stripping that the specification describes: one leading
  \<open>q\<close> is removed if there is one, and one trailing \<open>q\<close> if there is one.
  \<open>stripped_columns\<close> are the document keys of the timesheet import whose text goes
  through \<open>strip('"')\<close>, with their column headers.
\<close>

definition strip_one_layer :: "char \<Rightarrow> string \<Rightarrow> string" where
  "strip_one_layer q s =
     (let s1 = (case s of [] \<Rightarrow> [] | c # r \<Rightarrow> if c = q then r else s)
      in if s1 \<noteq> [] \<and> last s1 = q then butlast s1 else s1)"

definition stripped_columns :: "(string \<times> string) list" where
  "stripped_columns =
     [(''kunde'', ''Kunde''), (''projekt'', ''Projekt''), (''leistung'', ''Leistung''),
      (''mitarbeiter'', ''Mitarbeiter'')]"

text \<open>
  An example timesheet row whose customer text has two layers of quotes, with a given
  hours text and a given revenue text.
\<close>

definition quoted_row :: "string \<Rightarrow> string \<Rightarrow> raw_row" where
  "quoted_row stunden umsatz =
     (timesheet_row ([quote, quote] @ ''ACME'' @ [quote, quote]) ''2025-09'' stunden)
       (''Umsatz in EUR'' \<mapsto> Some umsatz)"

section \<open>Properties of the number conversion\<close>

lemma is_digit_cases:
  "is_digit c \<Longrightarrow> c \<noteq> CHR ''_'' \<and> c \<noteq> CHR ''.'' \<and> c \<noteq> CHR ''-'' \<and> c \<noteq> CHR ''+'' \<and> c \<noteq> CHR '',''
     \<and> \<not> float_space c \<and> \<not> py_isspace c \<and> lower_char c = c"
  by (auto simp: is_digit_def digits_def float_space_def py_isspace_def lower_char_def)

lemma underscores_ok_none:
  "CHR ''_'' \<notin> set s \<Longrightarrow> prev \<noteq> CHR ''_'' \<Longrightarrow> underscores_ok prev s"
  by (induction s arbitrary: prev) auto

lemma filter_no_underscore:
  "CHR ''_'' \<notin> set s \<Longrightarrow> filter (\<lambda>c. c \<noteq> CHR ''_'') s = s"
  by (induction s) auto

lemma strip_fixed:
  "s \<noteq> [] \<Longrightarrow> \<not> P (hd s) \<Longrightarrow> \<not> P (last s) \<Longrightarrow> rev (dropWhile P (rev (dropWhile P s))) = s"
proof -
  assume a: "s \<noteq> []" "\<not> P (hd s)" "\<not> P (last s)"
  have "dropWhile P s = s" using a by (simp add: dropWhile_eq_self_iff)
  moreover have "dropWhile P (rev s) = rev s"
    using a by (simp add: dropWhile_eq_self_iff hd_rev)
  ultimately show ?thesis by simp
qed

lemma nat_of_digits_append:
  "nat_of_digits (xs @ ys) = nat_of_digits xs * 10 ^ length ys + nat_of_digits ys"
proof (induction ys rule: rev_induct)
  case Nil
  show ?case by (simp add: nat_of_digits_def)
next
  case (snoc y ys)
  have "nat_of_digits (xs @ ys @ [y]) = 10 * nat_of_digits (xs @ ys) + digit_val y"
    by (simp add: nat_of_digits_def)
  moreover have "nat_of_digits (ys @ [y]) = 10 * nat_of_digits ys + digit_val y"
    by (simp add: nat_of_digits_def)
  ultimately show ?case using snoc by (simp add: algebra_simps)
qed

lemma parse_finite_point:
  assumes "ip \<noteq> []" "fp \<noteq> []" "list_all is_digit ip" "list_all is_digit fp"
  shows "parse_finite (ip @ ''.'' @ fp)
           = Some (of_nat (nat_of_digits ip) + of_nat (nat_of_digits fp) / 10 ^ length fp)"
proof -
  have ip: "\<And>x. x \<in> set ip \<Longrightarrow> is_digit x" and fp: "\<And>x. x \<in> set fp \<Longrightarrow> is_digit x"
    using assms by (auto simp: list_all_iff)
  have nd: "\<not> is_digit CHR ''.''" by (simp add: is_digit_def digits_def)
  have t1: "takeWhile is_digit (ip @ ''.'' @ fp) = ip"
    using ip nd by (simp add: takeWhile_append2)
  have d1: "dropWhile is_digit (ip @ ''.'' @ fp) = ''.'' @ fp"
    using ip nd by (simp add: dropWhile_append2)
  have t2: "takeWhile is_digit fp = fp" using fp by simp
  have d2: "dropWhile is_digit fp = []" using fp by simp
  have "parse_finite (ip @ ''.'' @ fp)
          = Some (of_nat (nat_of_digits (ip @ fp)) * pow10 (- int (length fp)))"
    unfolding parse_finite_def t1 d1 using assms(1)
    by (simp add: parse_exponent_def t2 d2)
  also have "of_nat (nat_of_digits (ip @ fp)) * pow10 (- int (length fp))
          = (of_nat (nat_of_digits ip) + of_nat (nat_of_digits fp) / 10 ^ length fp :: rat)"
    by (simp add: nat_of_digits_append pow10_def field_simps)
  finally show ?thesis .
qed

lemma digits_set:
  "list_all is_digit ds \<Longrightarrow> x \<in> set ds \<Longrightarrow> is_digit x"
  by (simp add: list_all_iff)

lemma neq_by_member: "x \<in> set xs \<Longrightarrow> x \<notin> set ys \<Longrightarrow> xs \<noteq> ys"
  by auto

lemma parse_float_body_decimal:
  assumes "ip \<noteq> []" "fp \<noteq> []" "list_all is_digit ip" "list_all is_digit fp" "is_sign sg"
  shows "parse_float_body (sg @ ip @ ''.'' @ fp) = Some (Finite (signed sg (decimal_value ip fp)))"
proof -
  obtain a ip' where ip: "ip = a # ip'" using assms(1) by (cases ip) auto
  have a: "is_digit a" using assms(3) ip by simp
  have sp: "split_sign (sg @ ip @ ''.'' @ fp) = (sg = ''-'', ip @ ''.'' @ fp)"
    using assms(5) is_digit_cases[OF a] by (auto simp: is_sign_def split_sign_def ip)
  have dot: "CHR ''.'' \<in> set (map lower_char (ip @ ''.'' @ fp))"
    by (simp add: lower_char_def)
  have w: "map lower_char (ip @ ''.'' @ fp) \<noteq> ''inf''"
          "map lower_char (ip @ ''.'' @ fp) \<noteq> ''infinity''"
          "map lower_char (ip @ ''.'' @ fp) \<noteq> ''nan''"
    by (rule neq_by_member[OF dot], simp)+
  show ?thesis
    unfolding parse_float_body_def sp using w parse_finite_point[OF assms(1-4)]
    by (simp add: signed_def decimal_value_def)
qed

lemma py_float_decimal:
  assumes "ip \<noteq> []" "fp \<noteq> []" "list_all is_digit ip" "list_all is_digit fp" "is_sign sg"
  shows "py_float (sg @ ip @ ''.'' @ fp) = Some (Finite (signed sg (decimal_value ip fp)))"
proof -
  let ?s = "sg @ ip @ ''.'' @ fp"
  have nou: "CHR ''_'' \<notin> set ?s"
    using assms(3-5) is_digit_cases by (auto simp: is_sign_def list_all_iff)
  have ne: "?s \<noteq> []" using assms(1) by simp
  have hd: "\<not> float_space (hd ?s)"
  proof (cases "sg = []")
    case True
    then show ?thesis using assms(1,3) is_digit_cases by (cases ip) auto
  next
    case False
    then show ?thesis using assms(5) by (auto simp: is_sign_def float_space_def)
  qed
  have "last ?s = last fp" using assms(2) by simp
  moreover have "is_digit (last fp)" using assms(2,4) by (simp add: list_all_iff)
  ultimately have la: "\<not> float_space (last ?s)" using is_digit_cases by simp
  have st: "float_strip ?s = ?s"
    unfolding float_strip_def by (rule strip_fixed[OF ne hd la])
  show ?thesis
    unfolding py_float_def
    using underscores_ok_none[OF nou] filter_no_underscore[OF nou] st ne
          parse_float_body_decimal[OF assms]
    by simp
qed

lemma replace_comma_digits:
  "list_all is_digit ds \<Longrightarrow> replace_char CHR '','' CHR ''.'' ds = ds"
  unfolding replace_char_def using is_digit_cases
  by (intro map_idI) (auto simp: list_all_iff)

lemma replace_comma_decimal:
  assumes "list_all is_digit ip" "list_all is_digit fp" "is_sign sg"
  shows "replace_char CHR '','' CHR ''.'' (sg @ ip @ '','' @ fp) = sg @ ip @ ''.'' @ fp"
proof -
  let ?f = "\<lambda>c. if c = CHR '','' then CHR ''.'' else c"
  have "map ?f sg = sg"
    using assms(3) by (auto simp: is_sign_def)
  moreover have "map ?f ip = ip" "map ?f fp = fp"
    using replace_comma_digits[OF assms(1)] replace_comma_digits[OF assms(2)]
    by (simp_all add: replace_char_def)
  ultimately show ?thesis
    by (simp add: replace_char_def)
qed

text \<open>
  Claim C3. The timesheet number parser returns \<open>0.0\<close> for an absent and for an empty
  input. For a plain decimal numeral written with a comma it returns the value of the
  numeral, which is also what the conversion returns for the same text written with a
  point: the comma is replaced and nothing else is done. In particular a point
  used as a thousands separator is not removed, so \<open>1.234,50\<close> becomes \<open>1.234.50\<close> and
  is refused.
\<close>

theorem parse_german_number_comma_decimal:
  "parse_german_number None = Inr (Finite 0) \<and>
   parse_german_number (Some []) = Inr (Finite 0) \<and>
   (ip \<noteq> [] \<and> fp \<noteq> [] \<and> list_all is_digit ip \<and> list_all is_digit fp \<and> is_sign sg \<longrightarrow>
      parse_german_number (Some (sg @ ip @ '','' @ fp))
        = Inr (Finite (signed sg (decimal_value ip fp))) \<and>
      py_float (sg @ ip @ ''.'' @ fp) = Some (Finite (signed sg (decimal_value ip fp)))) \<and>
   parse_german_number (Some ''1.234,50'') = Inl ValueError"
proof (intro conjI impI)
  show "parse_german_number None = Inr (Finite 0)"
    by (simp add: parse_german_number_def)
  show "parse_german_number (Some []) = Inr (Finite 0)"
    by (simp add: parse_german_number_def)
  show "parse_german_number (Some ''1.234,50'') = Inl ValueError"
    by code_simp
next
  assume h: "ip \<noteq> [] \<and> fp \<noteq> [] \<and> list_all is_digit ip \<and> list_all is_digit fp \<and> is_sign sg"
  then have f: "py_float (sg @ ip @ ''.'' @ fp) = Some (Finite (signed sg (decimal_value ip fp)))"
    using py_float_decimal by blast
  then show "py_float (sg @ ip @ ''.'' @ fp) = Some (Finite (signed sg (decimal_value ip fp)))" .
  have "sg @ ip @ '','' @ fp \<noteq> []" using h by simp
  then show "parse_german_number (Some (sg @ ip @ '','' @ fp))
        = Inr (Finite (signed sg (decimal_value ip fp)))"
    unfolding parse_german_number_def using h f replace_comma_decimal[of ip fp sg]
    by simp
qed

theorem parse_german_number_comma_decimal_witness:
  "list_all is_digit ''12'' \<and> list_all is_digit ''5'' \<and> is_sign [] \<and>
   parse_german_number (Some ''12,5'') = Inr (Finite (25 / 2)) \<and>
   py_float ''12.5'' = Some (Finite (25 / 2))"
  using parse_german_number_comma_decimal[of "''12''" "''5''" "[]"]
  by (simp add: is_digit_def digits_def is_sign_def signed_def decimal_value_def nat_of_digits_def digit_val_def)

section \<open>Properties of the date parsers\<close>

lemma digit_val_le: "is_digit c \<Longrightarrow> digit_val c \<le> 9"
  by (auto simp: is_digit_def digits_def digit_val_def)

lemma match_item_Y:
  "match_item re_Y s = (case s of
      a # b # c # e # r \<Rightarrow>
        if is_digit a \<and> is_digit b \<and> is_digit c \<and> is_digit e then [([[a, b, c, e]], r)] else []
    | _ \<Rightarrow> [])"
  by (simp add: re_Y_def List.map_filter_simps is_digit_def split: list.splits)

lemma match_item_m_full:
  "(case match_item re_m r of [] \<Rightarrow> None | (gs, r') # _ \<Rightarrow> if r' \<noteq> [] then None else Some gs)
     = (if r \<in> set month_texts then Some [r] else None)"
proof (cases r)
  case Nil
  then show ?thesis by (simp add: re_m_def List.map_filter_simps month_texts_def)
next
  case (Cons x r1)
  note c1 = this
  show ?thesis
  proof (cases r1)
    case Nil
    then show ?thesis using c1
      by (auto simp add: re_m_def List.map_filter_simps month_texts_def)
  next
    case (Cons y r2)
    note c2 = this
    show ?thesis
    proof (cases r2)
      case Nil
      then show ?thesis using c1 c2
        by (auto simp add: re_m_def List.map_filter_simps month_texts_def)
    next
      case (Cons z r3)
      then show ?thesis using c1 c2
        by (auto simp add: re_m_def List.map_filter_simps month_texts_def)
    qed
  qed
qed

lemma match_items_Y:
  "match_items (re_Y # ps) s = (case s of
      a # b # c # e # r \<Rightarrow>
        if is_digit a \<and> is_digit b \<and> is_digit c \<and> is_digit e
        then map (\<lambda>(gs, r'). ([a, b, c, e] # gs, r')) (match_items ps r) else []
    | _ \<Rightarrow> [])"
  by (subst match_items.simps)
     (auto simp add: match_item_Y simp del: match_items.simps split: list.splits)

lemma match_items_Lit:
  "match_items (Lit ch # ps) s = (case s of
      [] \<Rightarrow> []
    | x # r \<Rightarrow> if x = ch then match_items ps r else [])"
  by (subst match_items.simps)
     (auto simp del: match_items.simps split: list.splits)

lemma match_items_single: "match_items [i] s = match_item i s"
proof -
  have "concat (map (\<lambda>(g, r). [(g, r)]) xs) = xs" for xs :: "(string list \<times> string) list"
    by (induction xs) auto
  then show ?thesis by simp
qed

lemma case_map_head:
  "(case map f xs of [] \<Rightarrow> a | y # ys \<Rightarrow> b y) = (case xs of [] \<Rightarrow> a | y # ys \<Rightarrow> b (f y))"
  by (cases xs) auto

lemma valid_month_start:
  "valid_datetime (month_start y m) = (1 \<le> y \<and> y \<le> 9999 \<and> 1 \<le> m \<and> m \<le> 12)"
  by (auto simp: valid_datetime_def month_start_def days_in_month_def)

lemma year_bound:
  assumes "is_digit a" "is_digit b" "is_digit c" "is_digit e"
  shows "nat_of_digits [a, b, c, e] \<le> 9999"
  using assms[THEN digit_val_le] by (simp add: nat_of_digits_def)

lemma month_text_range:
  "r \<in> set month_texts \<Longrightarrow> 1 \<le> nat_of_digits r \<and> nat_of_digits r \<le> 12 \<and> group_int r = nat_of_digits r"
  by (auto simp: month_texts_def nat_of_digits_def digit_val_def group_int_def)

lemma group_int_digit: "is_digit a \<Longrightarrow> group_int (a # ds) = nat_of_digits (a # ds)"
  using is_digit_cases[of a] by (auto simp: group_int_def is_digit_def digits_def)

lemma strptime_Ym_text:
  assumes "is_digit a" "is_digit b" "is_digit c" "is_digit e"
  shows "strptime_Ym (a # b # c # e # CHR ''-'' # r) =
     (if r \<in> set month_texts \<and> 0 < nat_of_digits [a, b, c, e]
      then Some (month_start (nat_of_digits [a, b, c, e]) (nat_of_digits r)) else None)"
proof -
  have m: "match_items fmt_Ym (a # b # c # e # CHR ''-'' # r)
             = map (\<lambda>(gs, r'). ([a, b, c, e] # gs, r')) (match_item re_m r)"
    using assms by (simp add: fmt_Ym_def match_items_Y match_items_Lit match_items_single
                          del: match_items.simps)
  have b: "build_datetime [y, mo] = month_start y mo" for y mo
    by (simp add: build_datetime_def month_start_def)
  show ?thesis
  proof (cases "r \<in> set month_texts")
    case True
    then have "(case match_item re_m r of [] \<Rightarrow> None
                | (gs, r') # _ \<Rightarrow> if r' \<noteq> [] then None else Some gs) = Some [r]"
      by (simp add: match_item_m_full)
    then obtain rest where "match_item re_m r = ([r], []) # rest"
      by (auto split: list.splits if_splits)
    then show ?thesis
      using True assms year_bound[OF assms] month_text_range[OF True]
      by (simp add: strptime_Ym_def strptime_def m b group_int_digit valid_month_start)
  next
    case False
    then have "(case match_item re_m r of [] \<Rightarrow> None
                | (gs, r') # _ \<Rightarrow> if r' \<noteq> [] then None else Some gs) = None"
      by (simp add: match_item_m_full)
    then have "match_item re_m r = [] \<or> (\<exists>gs r' rest. match_item re_m r = (gs, r') # rest \<and> r' \<noteq> [])"
      by (auto split: list.splits if_splits)
    then show ?thesis
      using False by (auto simp: strptime_Ym_def strptime_def m)
  qed
qed

lemma strptime_Ym_Some:
  "strptime_Ym s = Some d \<longleftrightarrow>
     (\<exists>ys ms y m. s = ys @ ''-'' @ ms \<and> year_numeral ys = Some y \<and> month_numeral ms = Some m
        \<and> d = month_start y m)"
proof
  assume a: "strptime_Ym s = Some d"
  have ne: "match_items fmt_Ym s \<noteq> []"
    using a by (auto simp: strptime_Ym_def strptime_def)
  then obtain a1 b1 c1 e1 r where s: "s = a1 # b1 # c1 # e1 # CHR ''-'' # r"
     and dg: "is_digit a1" "is_digit b1" "is_digit c1" "is_digit e1"
    by (auto simp add: fmt_Ym_def match_items_Y match_items_Lit simp del: match_items.simps
             split: list.splits if_splits)
  from a have "r \<in> set month_texts \<and> 0 < nat_of_digits [a1, b1, c1, e1]
      \<and> d = month_start (nat_of_digits [a1, b1, c1, e1]) (nat_of_digits r)"
    unfolding s strptime_Ym_text[OF dg] by (auto split: if_splits)
  then have "s = [a1, b1, c1, e1] @ ''-'' @ r \<and>
        year_numeral [a1, b1, c1, e1] = Some (nat_of_digits [a1, b1, c1, e1]) \<and>
        month_numeral r = Some (nat_of_digits r) \<and>
        d = month_start (nat_of_digits [a1, b1, c1, e1]) (nat_of_digits r)"
    using s dg by (simp add: year_numeral_def month_numeral_def)
  then show "\<exists>ys ms y m. s = ys @ ''-'' @ ms \<and> year_numeral ys = Some y \<and> month_numeral ms = Some m
        \<and> d = month_start y m" by blast
next
  assume "\<exists>ys ms y m. s = ys @ ''-'' @ ms \<and> year_numeral ys = Some y \<and> month_numeral ms = Some m
        \<and> d = month_start y m"
  then obtain ys ms y m where h: "s = ys @ ''-'' @ ms" "year_numeral ys = Some y"
      "month_numeral ms = Some m" "d = month_start y m" by blast
  from h(2) have l: "length ys = 4" and dy: "list_all is_digit ys" and y: "0 < nat_of_digits ys" "y = nat_of_digits ys"
    by (auto simp: year_numeral_def split: if_splits)
  from l obtain a1 b1 c1 e1 where ys: "ys = [a1, b1, c1, e1]"
    by (cases ys; simp; cases "tl ys"; simp; cases "tl (tl ys)"; simp; cases "tl (tl (tl ys))"; simp)
  from h(3) have ms: "ms \<in> set month_texts" "m = nat_of_digits ms"
    by (auto simp: month_numeral_def split: if_splits)
  have dg: "is_digit a1" "is_digit b1" "is_digit c1" "is_digit e1" using dy ys by auto
  show "strptime_Ym s = Some d"
    using strptime_Ym_text[OF dg, of ms] h(1,4) ys y ms by simp
qed

text \<open>
  Claim C6, as stated, fails: the text \<open>2025-9\<close> does not have the shape \<open>YYYY-MM\<close>, and
  the timesheet date parser returns September 2025 for it.
\<close>

theorem parse_month_one_digit_month_counterexample:
  "\<not> shape_YYYY_MM ''2025-9'' \<and>
   parse_month (Some ''2025-9'') = Inr (Some (month_start 2025 9))"
  by (simp add: shape_YYYY_MM_def month_start_def parse_month_def strptime_Ym_text
        is_digit_def digits_def month_texts_def nat_of_digits_def digit_val_def)

text \<open>
  Claim C6, amended. For a text, the timesheet date parser never raises. It returns a
  month exactly for the texts made of a four-digit year other than 0000, a hyphen, and a
  month written 01 to 12 or, without the leading zero, 1 to 9; the result is the first
  day of that month at midnight. Every other text yields absent, among them
  \<open>2025-13\<close>, \<open>not-a-date\<close> and \<open>0000-09\<close>. The parser prints nothing: its result has no
  console output.
\<close>

theorem parse_month_accepts:
  "(parse_month (Some s) = Inr (Some d) \<longleftrightarrow>
      (\<exists>ys ms y m. s = ys @ ''-'' @ ms \<and> year_numeral ys = Some y \<and>
                   month_numeral ms = Some m \<and> d = month_start y m)) \<and>
   parse_month (Some s) \<noteq> Inl e \<and>
   parse_month (Some ''2025-09'') = Inr (Some (month_start 2025 9)) \<and>
   parse_month (Some ''2025-13'') = Inr None \<and>
   parse_month (Some ''not-a-date'') = Inr None \<and>
   parse_month (Some ''0000-09'') = Inr None"
proof (intro conjI)
  show "parse_month (Some s) = Inr (Some d) \<longleftrightarrow>
      (\<exists>ys ms y m. s = ys @ ''-'' @ ms \<and> year_numeral ys = Some y \<and>
                   month_numeral ms = Some m \<and> d = month_start y m)"
    using strptime_Ym_Some[of s d] by (simp add: parse_month_def)
  show "parse_month (Some s) \<noteq> Inl e"
    by (simp add: parse_month_def)
  have dg: "is_digit CHR ''0''" "is_digit CHR ''2''" "is_digit CHR ''5''"
    by (simp_all add: is_digit_def digits_def)
  show "parse_month (Some ''2025-09'') = Inr (Some (month_start 2025 9))"
    by (simp add: parse_month_def strptime_Ym_text dg month_texts_def nat_of_digits_def
          digit_val_def)
  show "parse_month (Some ''2025-13'') = Inr None"
    by (simp add: parse_month_def strptime_Ym_text dg month_texts_def)
  show "parse_month (Some ''0000-09'') = Inr None"
    by (simp add: parse_month_def strptime_Ym_text dg nat_of_digits_def digit_val_def)
  show "parse_month (Some ''not-a-date'') = Inr None"
    by code_simp
qed

theorem parse_month_accepts_witness:
  "year_numeral ''2025'' = Some 2025 \<and> month_numeral ''9'' = Some 9 \<and>
   parse_month (Some ''2025-9'') = Inr (Some (month_start 2025 9))"
proof -
  have y: "year_numeral ''2025'' = Some 2025"
    by (simp add: year_numeral_def is_digit_def digits_def nat_of_digits_def digit_val_def)
  have m: "month_numeral ''9'' = Some 9"
    by (simp add: month_numeral_def month_texts_def nat_of_digits_def digit_val_def)
  have "\<exists>ys ms y m. ''2025-9'' = ys @ ''-'' @ ms \<and> year_numeral ys = Some y \<and>
                   month_numeral ms = Some m \<and> month_start 2025 9 = month_start y m"
    using y m by (intro exI[of _ "''2025''"] exI[of _ "''9''"] exI[of _ 2025] exI[of _ 9]) simp
  then show ?thesis
    using parse_month_accepts[of "''2025-9''" "month_start 2025 9"] y m by blast
qed

subsection \<open>The deal date parser\<close>

lemma strip_ws_empty: "strip_ws s = [] \<longleftrightarrow> blank s"
proof -
  have "strip_ws s = [] \<longleftrightarrow> (\<forall>x \<in> set (dropWhile py_isspace s). py_isspace x)"
    by (simp add: strip_ws_def dropWhile_eq_Nil_conv)
  also have "\<dots> \<longleftrightarrow> dropWhile py_isspace s = []"
  proof
    assume a: "\<forall>x \<in> set (dropWhile py_isspace s). py_isspace x"
    show "dropWhile py_isspace s = []"
    proof (rule ccontr)
      assume n: "dropWhile py_isspace s \<noteq> []"
      then have "\<not> py_isspace (hd (dropWhile py_isspace s))" by (rule hd_dropWhile)
      moreover have "hd (dropWhile py_isspace s) \<in> set (dropWhile py_isspace s)"
        using n by simp
      ultimately show False using a by blast
    qed
  next
    assume e: "dropWhile py_isspace s = []"
    show "\<forall>x \<in> set (dropWhile py_isspace s). py_isspace x" unfolding e by simp
  qed
  also have "\<dots> \<longleftrightarrow> blank s"
    by (simp add: blank_def dropWhile_eq_Nil_conv list_all_iff)
  finally show ?thesis .
qed

lemma match_items_head:
  assumes "match_item i s = (g, r) # more1" "match_items ps r = (gs, r') # more2"
  shows "\<exists>more3. match_items (i # ps) s = (g @ gs, r') # more3"
  using assms by simp

lemma digit_class:
  assumes "is_digit a"
  shows "(a = CHR ''0'') = (digit_val a = 0)"
    and "(a = CHR ''1'') = (digit_val a = 1)"
    and "(a = CHR ''2'') = (digit_val a = 2)"
    and "(a = CHR ''3'') = (digit_val a = 3)"
    and "(a = CHR ''4'') = (digit_val a = 4)"
    and "(a = CHR ''5'') = (digit_val a = 5)"
    and "(a = CHR ''6'') = (digit_val a = 6)"
    and "(a = CHR ''7'') = (digit_val a = 7)"
    and "(a = CHR ''8'') = (digit_val a = 8)"
    and "(a = CHR ''9'') = (digit_val a = 9)"
    and "a \<noteq> CHR '' ''"
    and "a \<in> set digits"
  using assms by (auto simp: is_digit_def digits_def digit_val_def)

lemma two_digits: "nat_of_digits [a, b] = 10 * digit_val a + digit_val b"
  by (simp add: nat_of_digits_def)

lemma head_m:
  assumes "is_digit a" "is_digit b" "1 \<le> nat_of_digits [a, b]" "nat_of_digits [a, b] \<le> 12"
  shows "\<exists>more1. match_item re_m (a # b # r) = ([[a, b]], r) # more1"
  using assms(3,4) digit_val_le[OF assms(1)] digit_val_le[OF assms(2)]
  by (auto simp add: re_m_def List.map_filter_simps two_digits
        digit_class[OF assms(1)] digit_class[OF assms(2)])

lemma head_d:
  assumes "is_digit a" "is_digit b" "1 \<le> nat_of_digits [a, b]" "nat_of_digits [a, b] \<le> 31"
  shows "\<exists>more1. match_item re_d (a # b # r) = ([[a, b]], r) # more1"
  using assms(3,4) digit_val_le[OF assms(1)] digit_val_le[OF assms(2)]
  by (auto simp add: re_d_def List.map_filter_simps two_digits
        digit_class[OF assms(1)] digit_class[OF assms(2)])

lemma head_H:
  assumes "is_digit a" "is_digit b" "nat_of_digits [a, b] \<le> 23"
  shows "\<exists>more1. match_item re_H (a # b # r) = ([[a, b]], r) # more1"
  using assms(3) digit_val_le[OF assms(1)] digit_val_le[OF assms(2)]
  by (auto simp add: re_H_def List.map_filter_simps two_digits
        digit_class[OF assms(1)] digit_class[OF assms(2)])

lemma head_M:
  assumes "is_digit a" "is_digit b" "nat_of_digits [a, b] \<le> 59"
  shows "\<exists>more1. match_item re_M (a # b # r) = ([[a, b]], r) # more1"
  using assms(3) digit_val_le[OF assms(1)] digit_val_le[OF assms(2)]
  by (auto simp add: re_M_def List.map_filter_simps two_digits
        digit_class[OF assms(1)] digit_class[OF assms(2)])

lemma head_S:
  assumes "is_digit a" "is_digit b" "nat_of_digits [a, b] \<le> 59"
  shows "\<exists>more1. match_item re_S (a # b # r) = ([[a, b]], r) # more1"
  using assms(3) digit_val_le[OF assms(1)] digit_val_le[OF assms(2)]
  by (auto simp add: re_S_def List.map_filter_simps two_digits
        digit_class[OF assms(1)] digit_class[OF assms(2)])

lemma head_Y:
  assumes "is_digit a" "is_digit b" "is_digit c" "is_digit e"
  shows "match_item re_Y (a # b # c # e # r) = ([[a, b, c, e]], r) # []"
  using assms by (simp add: match_item_Y)

lemma head_Lit: "match_item (Lit c) (c # r) = ([], r) # []"
  by simp

lemma head_Spaces:
  assumes "is_digit a"
  shows "match_item Spaces (CHR '' '' # a # r) = ([], a # r) # []"
  using is_digit_cases[OF assms] by (simp add: py_isspace_def)

lemma field2: "field 2 t \<Longrightarrow> \<exists>a b. t = [a, b] \<and> is_digit a \<and> is_digit b"
  by (cases t; cases "tl t"; cases "tl (tl t)") (auto simp: field_def)

lemma field4:
  "field 4 t \<Longrightarrow> \<exists>a b c e. t = [a, b, c, e] \<and> is_digit a \<and> is_digit b \<and> is_digit c \<and> is_digit e"
  by (cases t; cases "tl t"; cases "tl (tl t)"; cases "tl (tl (tl t))"; cases "tl (tl (tl (tl t)))")
     (auto simp: field_def)

lemma days_in_month_le: "days_in_month y m \<le> 31"
  by (simp add: days_in_month_def)

lemma build_stamp:
  assumes "field 4 ys" "field 2 ms" "field 2 ds" "field 2 hs" "field 2 ns" "field 2 ss"
  shows "build_datetime (map group_int [ys, ms, ds, hs, ns, ss]) = stamp ys ms ds hs ns ss"
    and "build_datetime (map group_int [ys, ms, ds]) = stamp ys ms ds ''00'' ''00'' ''00''"
proof -
  have g: "group_int t = nat_of_digits t" if "field n t" for n t
  proof (cases t)
    case Nil
    then show ?thesis by (simp add: group_int_def)
  next
    case (Cons a r)
    then have "is_digit a" using that by (simp add: field_def)
    then show ?thesis using Cons by (simp add: group_int_digit)
  qed
  show "build_datetime (map group_int [ys, ms, ds, hs, ns, ss]) = stamp ys ms ds hs ns ss"
    using assms[THEN g] by (simp add: build_datetime_def stamp_def)
  show "build_datetime (map group_int [ys, ms, ds]) = stamp ys ms ds ''00'' ''00'' ''00''"
    using assms(1-3)[THEN g] by (simp add: build_datetime_def stamp_def nat_of_digits_def digit_val_def)
qed

lemma match_date_part:
  assumes "field 4 ys" "field 2 ms" "field 2 ds"
    and v: "valid_datetime (stamp ys ms ds hs ns ss)"
    and rest: "match_items ps r = (gs, r') # more2"
  shows "\<exists>more3. match_items (re_Y # Lit CHR ''-'' # re_m # Lit CHR ''-'' # re_d # ps)
                    (date_text ys ms ds @ r) = ([ys, ms, ds] @ gs, r') # more3"
proof -
  obtain y1 y2 y3 y4 where ys: "ys = [y1, y2, y3, y4]"
      and yd: "is_digit y1" "is_digit y2" "is_digit y3" "is_digit y4"
    using field4[OF assms(1)] by blast
  obtain m1 m2 where ms: "ms = [m1, m2]" and md: "is_digit m1" "is_digit m2"
    using field2[OF assms(2)] by blast
  obtain d1 d2 where ds: "ds = [d1, d2]" and dd: "is_digit d1" "is_digit d2"
    using field2[OF assms(3)] by blast
  have mr: "1 \<le> nat_of_digits [m1, m2]" "nat_of_digits [m1, m2] \<le> 12"
    using v by (simp_all add: valid_datetime_def stamp_def ms)
  have dr: "1 \<le> nat_of_digits [d1, d2]" "nat_of_digits [d1, d2] \<le> 31"
    using v days_in_month_le[of "nat_of_digits ys" "nat_of_digits ms"]
    by (simp_all add: valid_datetime_def stamp_def ds)
  obtain e1 where 1: "match_item re_d (d1 # d2 # r) = ([[d1, d2]], r) # e1"
    using head_d[OF dd dr] by blast
  obtain e2 where 2: "match_items (re_d # ps) (d1 # d2 # r) = ([[d1, d2]] @ gs, r') # e2"
    using match_items_head[OF 1 rest] by blast
  obtain e3 where 3: "match_items (Lit CHR ''-'' # re_d # ps) (CHR ''-'' # d1 # d2 # r)
                        = ([] @ [[d1, d2]] @ gs, r') # e3"
    using match_items_head[OF head_Lit 2] by blast
  obtain e4 where 4: "match_item re_m (m1 # m2 # CHR ''-'' # d1 # d2 # r)
                        = ([[m1, m2]], CHR ''-'' # d1 # d2 # r) # e4"
    using head_m[OF md mr] by blast
  obtain e5 where 5: "match_items (re_m # Lit CHR ''-'' # re_d # ps) (m1 # m2 # CHR ''-'' # d1 # d2 # r)
                        = ([[m1, m2]] @ [] @ [[d1, d2]] @ gs, r') # e5"
    using match_items_head[OF 4 3] by blast
  obtain e6 where 6: "match_items (Lit CHR ''-'' # re_m # Lit CHR ''-'' # re_d # ps)
                        (CHR ''-'' # m1 # m2 # CHR ''-'' # d1 # d2 # r)
                        = ([] @ [[m1, m2]] @ [] @ [[d1, d2]] @ gs, r') # e6"
    using match_items_head[OF head_Lit 5] by blast
  obtain e7 where 7: "match_items (re_Y # Lit CHR ''-'' # re_m # Lit CHR ''-'' # re_d # ps)
                        (y1 # y2 # y3 # y4 # CHR ''-'' # m1 # m2 # CHR ''-'' # d1 # d2 # r)
                        = ([[y1, y2, y3, y4]] @ [] @ [[m1, m2]] @ [] @ [[d1, d2]] @ gs, r') # e7"
    using match_items_head[OF head_Y[OF yd] 6] by blast
  show ?thesis using 7 by (simp add: date_text_def ys ms ds del: match_items.simps)
qed

lemma match_time_part:
  assumes "field 2 hs" "field 2 ns" "field 2 ss"
    and v: "valid_datetime (stamp ys ms ds hs ns ss)"
  shows "\<exists>more3. match_items [Spaces, re_H, Lit CHR '':'', re_M, Lit CHR '':'', re_S]
                    ('' '' @ time_text hs ns ss) = ([hs, ns, ss], []) # more3"
proof -
  obtain h1 h2 where hs: "hs = [h1, h2]" and hd: "is_digit h1" "is_digit h2"
    using field2[OF assms(1)] by blast
  obtain n1 n2 where ns: "ns = [n1, n2]" and nd: "is_digit n1" "is_digit n2"
    using field2[OF assms(2)] by blast
  obtain s1 s2 where ss: "ss = [s1, s2]" and sd: "is_digit s1" "is_digit s2"
    using field2[OF assms(3)] by blast
  have hr: "nat_of_digits [h1, h2] \<le> 23" and nr: "nat_of_digits [n1, n2] \<le> 59"
    and sr: "nat_of_digits [s1, s2] \<le> 59"
    using v by (simp_all add: valid_datetime_def stamp_def hs ns ss)
  have 0: "match_items [] [] = ([], []) # []" by simp
  obtain e1 where 1: "match_item re_S (s1 # s2 # []) = ([[s1, s2]], []) # e1"
    using head_S[OF sd sr] by blast
  obtain e2 where 2: "match_items [re_S] [s1, s2] = ([[s1, s2]] @ [], []) # e2"
    using match_items_head[OF 1 0] by blast
  obtain e3 where 3: "match_items [Lit CHR '':'', re_S] (CHR '':'' # [s1, s2])
                        = ([] @ [[s1, s2]] @ [], []) # e3"
    using match_items_head[OF head_Lit 2] by blast
  obtain e4 where 4: "match_item re_M (n1 # n2 # CHR '':'' # [s1, s2])
                        = ([[n1, n2]], CHR '':'' # [s1, s2]) # e4"
    using head_M[OF nd nr] by blast
  obtain e5 where 5: "match_items [re_M, Lit CHR '':'', re_S] (n1 # n2 # CHR '':'' # [s1, s2])
                        = ([[n1, n2]] @ [] @ [[s1, s2]] @ [], []) # e5"
    using match_items_head[OF 4 3] by blast
  obtain e6 where 6: "match_items [Lit CHR '':'', re_M, Lit CHR '':'', re_S]
                        (CHR '':'' # n1 # n2 # CHR '':'' # [s1, s2])
                        = ([] @ [[n1, n2]] @ [] @ [[s1, s2]] @ [], []) # e6"
    using match_items_head[OF head_Lit 5] by blast
  obtain e7 where 7: "match_item re_H (h1 # h2 # CHR '':'' # n1 # n2 # CHR '':'' # [s1, s2])
                        = ([[h1, h2]], CHR '':'' # n1 # n2 # CHR '':'' # [s1, s2]) # e7"
    using head_H[OF hd hr] by blast
  obtain e8 where 8: "match_items [re_H, Lit CHR '':'', re_M, Lit CHR '':'', re_S]
                        (h1 # h2 # CHR '':'' # n1 # n2 # CHR '':'' # [s1, s2])
                        = ([[h1, h2]] @ [] @ [[n1, n2]] @ [] @ [[s1, s2]] @ [], []) # e8"
    using match_items_head[OF 7 6] by blast
  obtain e9 where 9: "match_items [Spaces, re_H, Lit CHR '':'', re_M, Lit CHR '':'', re_S]
                        (CHR '' '' # h1 # h2 # CHR '':'' # n1 # n2 # CHR '':'' # [s1, s2])
                        = ([] @ [[h1, h2]] @ [] @ [[n1, n2]] @ [] @ [[s1, s2]] @ [], []) # e9"
    using match_items_head[OF head_Spaces[OF hd(1)] 8] by blast
  show ?thesis using 9 by (simp add: time_text_def hs ns ss del: match_items.simps)
qed

lemma strptime_YmdHMS_stamp:
  assumes "field 4 ys" "field 2 ms" "field 2 ds" "field 2 hs" "field 2 ns" "field 2 ss"
    and v: "valid_datetime (stamp ys ms ds hs ns ss)"
  shows "strptime_YmdHMS (date_text ys ms ds @ '' '' @ time_text hs ns ss)
           = Some (stamp ys ms ds hs ns ss)"
proof -
  obtain e1 where 1: "match_items [Spaces, re_H, Lit CHR '':'', re_M, Lit CHR '':'', re_S]
                    ('' '' @ time_text hs ns ss) = ([hs, ns, ss], []) # e1"
    using match_time_part[OF assms(4-6) v] by blast
  obtain e2 where 2: "match_items fmt_YmdHMS (date_text ys ms ds @ '' '' @ time_text hs ns ss)
                       = ([ys, ms, ds] @ [hs, ns, ss], []) # e2"
    using match_date_part[OF assms(1-3) v 1] unfolding fmt_YmdHMS_def by blast
  show ?thesis
    unfolding strptime_YmdHMS_def strptime_def 2
    using build_stamp(1)[OF assms(1-6)] v by simp
qed

lemma strptime_Ymd_stamp:
  assumes "field 4 ys" "field 2 ms" "field 2 ds"
    and v: "valid_datetime (stamp ys ms ds ''00'' ''00'' ''00'')"
  shows "strptime_Ymd (date_text ys ms ds) = Some (stamp ys ms ds ''00'' ''00'' ''00'')"
proof -
  have 0: "match_items [] [] = ([], []) # []" by simp
  obtain e2 where 2: "match_items fmt_Ymd (date_text ys ms ds @ [])
                       = ([ys, ms, ds] @ [], []) # e2"
    using match_date_part[OF assms(1-3) v 0] unfolding fmt_Ymd_def by blast
  have f: "field 2 ''00''" by (simp add: field_def is_digit_def digits_def)
  show ?thesis
    unfolding strptime_Ymd_def strptime_def using 2
    using build_stamp(2)[OF assms(1-3) f f f] v by simp
qed

lemma date_text_plain:
  assumes "field 4 ys" "field 2 ms" "field 2 ds"
  shows "CHR '' '' \<notin> set (date_text ys ms ds)" and "\<not> blank (date_text ys ms ds @ r)"
proof -
  have d: "x \<noteq> CHR '' '' \<and> \<not> py_isspace x" if "is_digit x" for x
    using is_digit_cases[OF that] digit_class(11)[OF that] by simp
  have a: "\<And>x. x \<in> set ys \<Longrightarrow> is_digit x" "\<And>x. x \<in> set ms \<Longrightarrow> is_digit x"
          "\<And>x. x \<in> set ds \<Longrightarrow> is_digit x"
    using assms by (auto simp: field_def list_all_iff)
  show "CHR '' '' \<notin> set (date_text ys ms ds)"
    using a d by (auto simp: date_text_def)
  obtain y r1 where "ys = y # r1" using assms(1) by (cases ys) (auto simp: field_def)
  then show "\<not> blank (date_text ys ms ds @ r)"
    using a(1)[of y] d[of y] by (simp add: blank_def date_text_def)
qed

text \<open>
  Claim C7. The deal date parser returns absent and prints nothing for an absent, an
  empty and a whitespace-only input. Every other text is parsed with the format
  \<open>%Y-%m-%d %H:%M:%S\<close> when it contains a blank and with \<open>%Y-%m-%d\<close> when it does not; the
  result is what the format yields, and a warning naming the text is printed exactly
  when the format fails. A text \<open>YYYY-MM-DD HH:MM:SS\<close> that names a valid date and time
  yields exactly that timestamp, a text \<open>YYYY-MM-DD\<close> that names a valid date yields
  midnight of that day, and \<open>garbage\<close> yields absent with a warning.
\<close>

theorem parse_date_formats:
  "parse_date None = (None, []) \<and>
   (blank s \<longrightarrow> parse_date (Some s) = (None, [])) \<and>
   (\<not> blank s \<and> CHR '' '' \<in> set s \<longrightarrow>
      parse_date (Some s)
        = (strptime_YmdHMS s, if strptime_YmdHMS s = None then [Warn_date s] else [])) \<and>
   (\<not> blank s \<and> CHR '' '' \<notin> set s \<longrightarrow>
      parse_date (Some s)
        = (strptime_Ymd s, if strptime_Ymd s = None then [Warn_date s] else [])) \<and>
   (field 4 ys \<and> field 2 ms \<and> field 2 ds \<and> field 2 hs \<and> field 2 ns \<and> field 2 ss \<and>
    valid_datetime (stamp ys ms ds hs ns ss) \<longrightarrow>
      parse_date (Some (date_text ys ms ds @ '' '' @ time_text hs ns ss))
        = (Some (stamp ys ms ds hs ns ss), [])) \<and>
   (field 4 ys \<and> field 2 ms \<and> field 2 ds \<and> valid_datetime (stamp ys ms ds ''00'' ''00'' ''00'') \<longrightarrow>
      parse_date (Some (date_text ys ms ds)) = (Some (stamp ys ms ds ''00'' ''00'' ''00''), [])) \<and>
   parse_date (Some ''garbage'') = (None, [Warn_date ''garbage''])"
proof (intro conjI impI)
  show "parse_date None = (None, [])"
    by (simp add: parse_date_def)
  show "parse_date (Some s) = (None, [])" if "blank s"
    using that strip_ws_empty[of s] by (simp add: parse_date_def)
  show "parse_date (Some s)
        = (strptime_YmdHMS s, if strptime_YmdHMS s = None then [Warn_date s] else [])"
    if "\<not> blank s \<and> CHR '' '' \<in> set s"
  proof -
    have "s \<noteq> []" "strip_ws s \<noteq> []" using that strip_ws_empty[of s] by (auto simp: blank_def)
    then show ?thesis using that by (auto simp: parse_date_def split: option.splits)
  qed
  show "parse_date (Some s)
        = (strptime_Ymd s, if strptime_Ymd s = None then [Warn_date s] else [])"
    if "\<not> blank s \<and> CHR '' '' \<notin> set s"
  proof -
    have "s \<noteq> []" "strip_ws s \<noteq> []" using that strip_ws_empty[of s] by (auto simp: blank_def)
    then show ?thesis using that by (auto simp: parse_date_def split: option.splits)
  qed
  show "parse_date (Some (date_text ys ms ds @ '' '' @ time_text hs ns ss))
        = (Some (stamp ys ms ds hs ns ss), [])"
    if h: "field 4 ys \<and> field 2 ms \<and> field 2 ds \<and> field 2 hs \<and> field 2 ns \<and> field 2 ss \<and>
           valid_datetime (stamp ys ms ds hs ns ss)"
  proof -
    let ?t = "date_text ys ms ds @ '' '' @ time_text hs ns ss"
    have nb: "\<not> blank ?t" using date_text_plain(2) h by blast
    then have "?t \<noteq> []" "strip_ws ?t \<noteq> []" using strip_ws_empty[of ?t] by (auto simp: blank_def)
    moreover have "CHR '' '' \<in> set ?t" by simp
    moreover have "strptime_YmdHMS ?t = Some (stamp ys ms ds hs ns ss)"
      using strptime_YmdHMS_stamp h by blast
    ultimately show ?thesis by (simp add: parse_date_def)
  qed
  show "parse_date (Some (date_text ys ms ds)) = (Some (stamp ys ms ds ''00'' ''00'' ''00''), [])"
    if h: "field 4 ys \<and> field 2 ms \<and> field 2 ds \<and>
           valid_datetime (stamp ys ms ds ''00'' ''00'' ''00'')"
  proof -
    let ?t = "date_text ys ms ds"
    have nb: "\<not> blank ?t" using date_text_plain(2)[of ys ms ds "[]"] h by simp
    then have "?t \<noteq> []" "strip_ws ?t \<noteq> []" using strip_ws_empty[of ?t] by (auto simp: blank_def)
    moreover have "CHR '' '' \<notin> set ?t" using date_text_plain(1) h by blast
    moreover have "strptime_Ymd ?t = Some (stamp ys ms ds ''00'' ''00'' ''00'')"
      using strptime_Ymd_stamp h by blast
    ultimately show ?thesis by (simp add: parse_date_def)
  qed
  show "parse_date (Some ''garbage'') = (None, [Warn_date ''garbage''])"
    by code_simp
qed

theorem parse_date_formats_witness:
  "blank ''  '' \<and> parse_date (Some ''  '') = (None, []) \<and>
   \<not> blank ''5 May'' \<and> CHR '' '' \<in> set ''5 May'' \<and>
   parse_date (Some ''5 May'') = (None, [Warn_date ''5 May'']) \<and>
   \<not> blank ''2025-9-5'' \<and> CHR '' '' \<notin> set ''2025-9-5'' \<and>
   parse_date (Some ''2025-9-5'')
     = (Some \<lparr>dt_year = 2025, dt_month = 9, dt_day = 5, dt_hour = 0, dt_minute = 0, dt_second = 0\<rparr>, []) \<and>
   field 4 ''2025'' \<and> field 2 ''09'' \<and> field 2 ''05'' \<and> field 2 ''10'' \<and> field 2 ''42'' \<and>
   field 2 ''00'' \<and> valid_datetime (stamp ''2025'' ''09'' ''05'' ''10'' ''42'' ''00'') \<and>
   valid_datetime (stamp ''2025'' ''09'' ''05'' ''00'' ''00'' ''00'') \<and>
   parse_date (Some ''2025-09-05 10:42:00'')
     = (Some \<lparr>dt_year = 2025, dt_month = 9, dt_day = 5, dt_hour = 10, dt_minute = 42, dt_second = 0\<rparr>, []) \<and>
   parse_date (Some ''2025-09-05'')
     = (Some \<lparr>dt_year = 2025, dt_month = 9, dt_day = 5, dt_hour = 0, dt_minute = 0, dt_second = 0\<rparr>, [])"
proof -
  have b: "blank ''  ''" "\<not> blank ''5 May''" "\<not> blank ''2025-9-5''"
    by (simp_all add: blank_def py_isspace_def)
  have f: "field 4 ''2025''" "field 2 ''09''" "field 2 ''05''" "field 2 ''10''" "field 2 ''42''"
          "field 2 ''00''"
    by (simp_all add: field_def is_digit_def digits_def)
  have st: "stamp ''2025'' ''09'' ''05'' ''10'' ''42'' ''00''
              = \<lparr>dt_year = 2025, dt_month = 9, dt_day = 5, dt_hour = 10, dt_minute = 42, dt_second = 0\<rparr>"
           "stamp ''2025'' ''09'' ''05'' ''00'' ''00'' ''00''
              = \<lparr>dt_year = 2025, dt_month = 9, dt_day = 5, dt_hour = 0, dt_minute = 0, dt_second = 0\<rparr>"
    by (simp_all add: stamp_def nat_of_digits_def digit_val_def)
  have v: "valid_datetime (stamp ''2025'' ''09'' ''05'' ''10'' ''42'' ''00'')"
          "valid_datetime (stamp ''2025'' ''09'' ''05'' ''00'' ''00'' ''00'')"
    unfolding st by (simp_all add: valid_datetime_def days_in_month_def)
  have s1: "strptime_YmdHMS ''5 May'' = None" by code_simp
  have s2: "strptime_Ymd ''2025-9-5''
     = Some \<lparr>dt_year = 2025, dt_month = 9, dt_day = 5, dt_hour = 0, dt_minute = 0, dt_second = 0\<rparr>"
    by code_simp
  show ?thesis
    using parse_date_formats[of "''  ''" "''2025''" "''09''" "''05''" "''10''" "''42''" "''00''"]
          parse_date_formats[of "''5 May''" "''2025''" "''09''" "''05''" "''10''" "''42''" "''00''"]
          parse_date_formats[of "''2025-9-5''" "''2025''" "''09''" "''05''" "''10''" "''42''" "''00''"]
          b f v s1 s2
    by (simp add: st date_text_def time_text_def)
qed

section \<open>Properties of the deal number parser\<close>

lemma plain_decimal_chars:
  assumes "plain_decimal s"
  shows "\<forall>c \<in> set s. is_digit c \<or> c = CHR ''-'' \<or> c = CHR ''+'' \<or> c = CHR ''.''"
proof -
  obtain sg ip fp where h: "is_sign sg" "list_all is_digit ip" "list_all is_digit fp"
      "s = sg @ ip \<or> s = sg @ ip @ ''.'' @ fp"
    using assms unfolding plain_decimal_def by blast
  have "set s \<subseteq> set sg \<union> set ip \<union> {CHR ''.''} \<union> set fp"
    using h(4) by auto
  moreover have "set sg \<subseteq> {CHR ''-'', CHR ''+''}"
    using h(1) by (auto simp: is_sign_def)
  moreover have "\<forall>c \<in> set ip \<union> set fp. is_digit c"
    using h(2,3) by (auto simp: list_all_iff)
  ultimately show ?thesis by blast
qed

lemma nan_not_decimal: "\<not> plain_decimal ''nan''"
proof
  assume "plain_decimal ''nan''"
  from plain_decimal_chars[OF this] have "is_digit CHR ''n''" by simp
  then show False by (simp add: is_digit_def digits_def)
qed

lemma py_float_integer:
  assumes "ip \<noteq> []" "list_all is_digit ip" "is_sign sg"
  shows "py_float (sg @ ip) = Some (Finite (signed sg (of_nat (nat_of_digits ip))))"
proof -
  let ?s = "sg @ ip"
  obtain a ip' where ip: "ip = a # ip'" using assms(1) by (cases ip) auto
  have a: "is_digit a" using assms(2) ip by simp
  have dg: "\<And>x. x \<in> set ip \<Longrightarrow> is_digit x" using assms(2) by (simp add: list_all_iff)
  have nou: "CHR ''_'' \<notin> set ?s"
  proof -
    have "CHR ''_'' \<notin> set ip" using dg is_digit_cases by blast
    moreover have "CHR ''_'' \<notin> set sg" using assms(3) by (auto simp: is_sign_def)
    ultimately show ?thesis by simp
  qed
  have ne: "?s \<noteq> []" using assms(1) by simp
  have hd: "\<not> float_space (hd ?s)"
  proof (cases "sg = []")
    case True
    then show ?thesis using is_digit_cases[OF a] ip by simp
  next
    case False
    then show ?thesis using assms(3) by (auto simp: is_sign_def float_space_def)
  qed
  have "last ?s = last ip" using assms(1) by simp
  moreover have "is_digit (last ip)" using assms(1) dg by simp
  ultimately have la: "\<not> float_space (last ?s)" using is_digit_cases[of "last ip"] by simp
  have st: "float_strip ?s = ?s"
    unfolding float_strip_def by (rule strip_fixed[OF ne hd la])
  have sp: "split_sign ?s = (sg = ''-'', ip)"
    using assms(3) is_digit_cases[OF a] by (auto simp: is_sign_def split_sign_def ip)
  have lw: "lower_char a = a" using is_digit_cases[OF a] by simp
  have an: "a \<noteq> CHR ''i''" "a \<noteq> CHR ''n''" using a by (auto simp: is_digit_def digits_def)
  have w: "map lower_char ip \<noteq> ''inf''" "map lower_char ip \<noteq> ''infinity''"
          "map lower_char ip \<noteq> ''nan''"
    using lw an by (simp_all add: ip)
  have t: "takeWhile is_digit ip = ip" "dropWhile is_digit ip = []" using dg by simp_all
  have pf: "parse_finite ip = Some (of_nat (nat_of_digits ip))"
    using assms(1) by (simp add: parse_finite_def t parse_exponent_def pow10_def)
  have "parse_float_body ?s = Some (Finite (signed sg (of_nat (nat_of_digits ip))))"
    unfolding parse_float_body_def sp using w pf by (simp add: signed_def)
  then show ?thesis
    unfolding py_float_def
    using underscores_ok_none[OF nou] filter_no_underscore[OF nou] st ne by simp
qed

text \<open>
  Claim C5, as stated, fails: \<open>nan\<close> is not blank and not a decimal numeral, and the deal
  number parser returns the float NaN for it, without a warning.
\<close>

theorem parse_number_nan_counterexample:
  "\<not> blank ''nan'' \<and> \<not> plain_decimal ''nan'' \<and> parse_number (Some ''nan'') = (Some NaN, [])"
proof -
  have "\<not> blank ''nan''" by (simp add: blank_def py_isspace_def)
  moreover have "parse_number (Some ''nan'') = (Some NaN, [])" by code_simp
  ultimately show ?thesis using nan_not_decimal by simp
qed

text \<open>
  Claim C5, amended. The deal number parser returns absent and prints nothing for an
  absent, an empty and a whitespace-only input. Every other text goes to the conversion
  \<open>float\<close>: a text that the conversion refuses yields absent and one warning naming it,
  and nothing is raised; a text that the conversion accepts yields its value and no
  warning. Every decimal numeral in the decimal-point convention is accepted and yields
  the value of the numeral. The conversion accepts more than these numerals (\<open>nan\<close>, \<open>inf\<close>,
  exponents, surrounding whitespace, underscores between digits).
\<close>

theorem parse_number_cases:
  "parse_number None = (None, []) \<and>
   (blank s \<longrightarrow> parse_number (Some s) = (None, [])) \<and>
   (\<not> blank s \<longrightarrow>
      parse_number (Some s) = (py_float s, if py_float s = None then [Warn_number s] else [])) \<and>
   (ip \<noteq> [] \<and> list_all is_digit ip \<and> is_sign sg \<longrightarrow>
      parse_number (Some (sg @ ip)) = (Some (Finite (signed sg (of_nat (nat_of_digits ip)))), [])) \<and>
   (ip \<noteq> [] \<and> fp \<noteq> [] \<and> list_all is_digit ip \<and> list_all is_digit fp \<and> is_sign sg \<longrightarrow>
      parse_number (Some (sg @ ip @ ''.'' @ fp))
        = (Some (Finite (signed sg (decimal_value ip fp))), [])) \<and>
   parse_number (Some ''12,5'') = (None, [Warn_number ''12,5''])"
proof (intro conjI impI)
  show "parse_number None = (None, [])"
    by (simp add: parse_number_def)
  show "parse_number (Some s) = (None, [])" if "blank s"
    using that strip_ws_empty[of s] by (simp add: parse_number_def)
  show "parse_number (Some s) = (py_float s, if py_float s = None then [Warn_number s] else [])"
    if "\<not> blank s"
  proof -
    have "s \<noteq> []" "strip_ws s \<noteq> []" using that strip_ws_empty[of s] by (auto simp: blank_def)
    then show ?thesis by (auto simp: parse_number_def split: option.splits)
  qed
  have nb: "\<not> blank (sg @ ip @ r)" if h1: "ip \<noteq> []" and h2: "list_all is_digit ip" for r
  proof -
    obtain a ip' where ip: "ip = a # ip'" using h1 by (cases ip) auto
    then have "is_digit a" using h2 by simp
    then have "\<not> py_isspace a" using is_digit_cases by blast
    then show ?thesis by (simp add: blank_def ip)
  qed
  have pn: "parse_number (Some t) = (Some x, [])" if "\<not> blank t" "py_float t = Some x" for t x
  proof -
    have "t \<noteq> []" "strip_ws t \<noteq> []" using that strip_ws_empty[of t] by (auto simp: blank_def)
    then show ?thesis using that(2) by (simp add: parse_number_def)
  qed
  show "parse_number (Some (sg @ ip)) = (Some (Finite (signed sg (of_nat (nat_of_digits ip)))), [])"
    if h: "ip \<noteq> [] \<and> list_all is_digit ip \<and> is_sign sg"
    using pn[of "sg @ ip"] nb[of "[]"] py_float_integer[of ip sg] h by simp
  show "parse_number (Some (sg @ ip @ ''.'' @ fp))
        = (Some (Finite (signed sg (decimal_value ip fp))), [])"
    if h: "ip \<noteq> [] \<and> fp \<noteq> [] \<and> list_all is_digit ip \<and> list_all is_digit fp \<and> is_sign sg"
    using pn[of "sg @ ip @ ''.'' @ fp"] nb[of "''.'' @ fp"] py_float_decimal[of ip fp sg] h by simp
  show "parse_number (Some ''12,5'') = (None, [Warn_number ''12,5''])"
    by code_simp
qed

theorem parse_number_cases_witness:
  "blank '' '' \<and> parse_number (Some '' '') = (None, []) \<and>
   \<not> blank ''abc'' \<and> parse_number (Some ''abc'') = (None, [Warn_number ''abc'']) \<and>
   list_all is_digit ''5000'' \<and> list_all is_digit ''50'' \<and> is_sign ''-'' \<and>
   parse_number (Some ''-5000'') = (Some (Finite (- 5000)), []) \<and>
   parse_number (Some ''-5000.50'') = (Some (Finite (- (10001 / 2))), [])"
proof -
  have b: "blank '' ''" "\<not> blank ''abc''" by (simp_all add: blank_def py_isspace_def)
  have d: "list_all is_digit ''5000''" "list_all is_digit ''50''" "is_sign ''-''"
    by (simp_all add: is_digit_def digits_def is_sign_def)
  have f: "py_float ''abc'' = None" by code_simp
  have v: "signed ''-'' (of_nat (nat_of_digits ''5000'')) = - 5000"
          "signed ''-'' (decimal_value ''5000'' ''50'') = - (10001 / 2)"
    by (simp_all add: signed_def decimal_value_def nat_of_digits_def digit_val_def)
  show ?thesis
    using parse_number_cases[of "'' ''" "''5000''" "''-''" "''50''"]
          parse_number_cases[of "''abc''" "''5000''" "''-''" "''50''"]
          b d f v
    by simp
qed

section \<open>Properties of the row transformers\<close>

lemma transform_fields_ok:
  "transform_fields row tbl = (Inr d, w) \<Longrightarrow>
     d = map (\<lambda>(k, col, cv). (k, fst (convert cv (the (row col))))) tbl \<and>
     (\<forall>(k, col, cv) \<in> set tbl. row col \<noteq> None)"
proof (induction tbl arbitrary: d w)
  case Nil
  then show ?case by simp
next
  case (Cons f fs)
  obtain k col cv where f: "f = (k, col, cv)" by (cases f) auto
  from Cons.prems obtain v where v: "row col = Some v"
    by (auto simp: f split: option.splits)
  obtain x w1 where c: "convert cv v = (x, w1)" by (cases "convert cv v") auto
  from Cons.prems obtain d' w' where r: "transform_fields row fs = (Inr d', w')"
      and d: "d = (k, x) # d'"
    by (auto simp: f v c split: prod.splits sum.splits)
  from Cons.IH[OF r] show ?case
    by (simp add: f v c d)
qed

lemma transform_deal_row_ok:
  assumes "transform_deal_row now row = (Inr d, w)"
  shows "d = map (\<lambda>(k, col, cv). (k, fst (convert cv (the (row col))))) deal_columns
               @ [(''imported_at'', PDate now)]"
    and "\<forall>(k, col, cv) \<in> set deal_columns. row col \<noteq> None"
proof -
  obtain d0 where t: "transform_fields row deal_columns = (Inr d0, w)"
      and d: "d = d0 @ [(''imported_at'', PDate now)]"
    using assms by (auto simp: transform_deal_row_def split: prod.splits sum.splits)
  show "d = map (\<lambda>(k, col, cv). (k, fst (convert cv (the (row col))))) deal_columns
               @ [(''imported_at'', PDate now)]"
    using transform_fields_ok[OF t] d by simp
  show "\<forall>(k, col, cv) \<in> set deal_columns. row col \<noteq> None"
    using transform_fields_ok[OF t] by simp
qed

lemma deal_columns_distinct: "distinct (map fst deal_columns)"
  by (simp add: deal_columns_def)

lemma deal_field:
  assumes "transform_deal_row now row = (Inr d, w)" "(k, col, cv) \<in> set deal_columns"
  shows "\<exists>v. row col = Some v \<and> map_of d k = Some (fst (convert cv v))"
proof -
  let ?f = "\<lambda>(k, col, cv). (k, fst (convert cv (the (row col))))"
  obtain v where v: "row col = Some v"
    using transform_deal_row_ok(2)[OF assms(1)] assms(2) by fastforce
  have "map fst (map ?f xs) = map fst xs" for xs
    by (induction xs) auto
  then have e: "map fst (map ?f deal_columns) = map fst deal_columns" .
  have "distinct (map fst (map ?f deal_columns))"
    unfolding e by (rule deal_columns_distinct)
  moreover have "(k, fst (convert cv v)) \<in> set (map ?f deal_columns)"
    using assms(2) v by force
  ultimately have "map_of (map ?f deal_columns) k = Some (fst (convert cv v))"
    by (rule map_of_is_SomeI)
  then show ?thesis
    using transform_deal_row_ok(1)[OF assms(1)] v by (simp add: map_of_append)
qed

lemma deal_id_field:
  assumes "transform_deal_row now row = (Inr d, w)"
  shows "\<exists>v. row ''Deal - ID'' = Some v \<and> map_of d ''deal_id'' = Some (of_raw v)"
proof -
  have "(''deal_id'', ''Deal - ID'', Str) \<in> set deal_columns"
    by (simp add: deal_columns_def)
  from deal_field[OF assms this] show ?thesis by simp
qed

section \<open>Properties of the deal import loop\<close>

lemma deals_loop_append:
  "deals_loop accepts clock i (xs @ ys) st
     = deals_loop accepts clock (i + length xs) ys (deals_loop accepts clock i xs st)"
  by (induction xs arbitrary: i st) auto

lemma step_transform_error:
  assumes "transform_deal_row now row = (Inl e, w)"
  shows "deals_step accepts now row st = st\<lparr>dl_out := dl_out st @ w @ [Row_error e]\<rparr>"
  using assms by (simp add: deals_step_def)

lemma step_skip:
  assumes "transform_deal_row now row = (Inr d, w)" "map_of d ''deal_id'' = Some v"
    "truthy v" "find_one (dl_coll st) ''deal_id'' v \<noteq> None"
  shows "deals_step accepts now row st
           = st\<lparr>dl_skipped := dl_skipped st + 1, dl_out := dl_out st @ w @ [Skipping v]\<rparr>"
  using assms by (simp add: deals_step_def)

lemma step_insert:
  assumes "transform_deal_row now row = (Inr d, w)" "map_of d ''deal_id'' = Some v"
    "\<not> truthy v \<or> find_one (dl_coll st) ''deal_id'' v = None" "accepts (dl_coll st) d"
  shows "deals_step accepts now row st
           = st\<lparr>dl_coll := (dl_coll st)\<lparr>docs := docs (dl_coll st) @ [d]\<rparr>,
                 dl_imported := dl_imported st + 1,
                 dl_out := dl_out st @ w @
                   (if (dl_imported st + 1) mod 10 = 0 then [Progress (dl_imported st + 1)] else [])\<rparr>"
  using assms by (auto simp: deals_step_def insert_one_def Let_def)

lemma step_refused:
  assumes "transform_deal_row now row = (Inr d, w)" "map_of d ''deal_id'' = Some v"
    "\<not> truthy v \<or> find_one (dl_coll st) ''deal_id'' v = None" "\<not> accepts (dl_coll st) d"
  shows "deals_step accepts now row st = st\<lparr>dl_out := dl_out st @ w @ [Row_error SinkError]\<rparr>"
  using assms by (auto simp: deals_step_def insert_one_def Let_def)

lemma find_one_with_id: "(find_one c ''deal_id'' v = None) = (with_id c v = [])"
  by (auto simp add: find_one_def with_id_def find_None_iff filter_empty_conv)

lemma with_id_append:
  "with_id (c\<lparr>docs := docs c @ [d]\<rparr>) v
     = with_id c v @ (if map_of d ''deal_id'' = Some v then [d] else [])"
  by (simp add: with_id_def)

lemma step_cases:
  "(dl_coll (deals_step accepts now row st) = dl_coll st) \<or>
   (\<exists>d w v. transform_deal_row now row = (Inr d, w) \<and> map_of d ''deal_id'' = Some v \<and>
      (truthy v \<longrightarrow> with_id (dl_coll st) v = []) \<and>
      dl_coll (deals_step accepts now row st) = (dl_coll st)\<lparr>docs := docs (dl_coll st) @ [d]\<rparr>)"
proof (cases "transform_deal_row now row")
  case (Pair r w)
  show ?thesis
  proof (cases r)
    case (Inl e)
    then show ?thesis using Pair by (simp add: step_transform_error)
  next
    case (Inr d)
    then have t: "transform_deal_row now row = (Inr d, w)" using Pair by simp
    obtain v0 where v: "map_of d ''deal_id'' = Some (of_raw v0)"
      using deal_id_field[OF t] by blast
    show ?thesis
    proof (cases "truthy (of_raw v0) \<and> find_one (dl_coll st) ''deal_id'' (of_raw v0) \<noteq> None")
      case True
      then show ?thesis using step_skip[OF t v] by simp
    next
      case False
      then have f: "\<not> truthy (of_raw v0) \<or> find_one (dl_coll st) ''deal_id'' (of_raw v0) = None"
        by simp
      show ?thesis
      proof (cases "accepts (dl_coll st) d")
        case True
        show ?thesis
          using step_insert[where accepts = accepts, OF t v f True] t v f
          by (auto simp: find_one_with_id)
      next
        case False
        show ?thesis using step_refused[where accepts = accepts, OF t v f False] by simp
      qed
    qed
  qed
qed

lemma step_unique_ids:
  assumes "unique_ids (dl_coll st)"
  shows "unique_ids (dl_coll (deals_step accepts now row st))"
  using step_cases[of accepts now row st]
proof
  assume "dl_coll (deals_step accepts now row st) = dl_coll st"
  then show ?thesis using assms by simp
next
  assume "\<exists>d w v. transform_deal_row now row = (Inr d, w) \<and> map_of d ''deal_id'' = Some v \<and>
      (truthy v \<longrightarrow> with_id (dl_coll st) v = []) \<and>
      dl_coll (deals_step accepts now row st) = (dl_coll st)\<lparr>docs := docs (dl_coll st) @ [d]\<rparr>"
  then obtain d v where v: "map_of d ''deal_id'' = Some v"
      and n: "truthy v \<longrightarrow> with_id (dl_coll st) v = []"
      and c: "dl_coll (deals_step accepts now row st) = (dl_coll st)\<lparr>docs := docs (dl_coll st) @ [d]\<rparr>"
    by blast
  show ?thesis
    unfolding unique_ids_def c with_id_append
  proof (intro allI impI)
    fix u assume u: "truthy u"
    show "length (with_id (dl_coll st) u @ (if map_of d ''deal_id'' = Some u then [d] else [])) \<le> 1"
    proof (cases "u = v")
      case True
      then show ?thesis using n u v by simp
    next
      case False
      then show ?thesis using assms u v by (simp add: unique_ids_def)
    qed
  qed
qed

lemma loop_unique_ids:
  "unique_ids (dl_coll st) \<Longrightarrow> unique_ids (dl_coll (deals_loop accepts clock i rows st))"
  by (induction rows arbitrary: i st) (auto intro: step_unique_ids)

lemma step_indexes: "indexes (dl_coll (deals_step accepts now row st)) = indexes (dl_coll st)"
  using step_cases[of accepts now row st] by auto

lemma loop_indexes:
  "indexes (dl_coll (deals_loop accepts clock i rows st)) = indexes (dl_coll st)"
  by (induction rows arbitrary: i st) (auto simp: step_indexes)

section \<open>Properties of the timesheet import\<close>

lemma bind_exn_isl:
  "isl (bind_exn m f) = (case m of Inl e \<Rightarrow> True | Inr x \<Rightarrow> isl (f x))"
  by (simp add: bind_exn_def split: sum.splits)

lemma document_isl_now:
  "isl (clockodo_document now row) = isl (clockodo_document now' row)"
  unfolding clockodo_document_def
  by (simp add: bind_exn_isl cong: sum.case_cong)

lemma clockodo_loop_append:
  "clockodo_loop accepts clock i (xs @ ys) st =
     (case clockodo_loop accepts clock i xs st of
        (None, st') \<Rightarrow> clockodo_loop accepts clock (i + length xs) ys st'
      | (Some e, st') \<Rightarrow> (Some e, st'))"
proof (induction xs arbitrary: i st)
  case Nil
  then show ?case by simp
next
  case (Cons x xs)
  show ?case
    by (auto simp add: Cons.IH Let_def split: sum.splits prod.splits option.splits)
qed

lemma loop_failing_row:
  assumes "row \<in> set rows" "\<And>now. isl (clockodo_document now row)"
  shows "fst (clockodo_loop accepts clock i rows st) \<noteq> None"
  using assms(1)
proof (induction rows arbitrary: i st)
  case Nil
  then show ?case by simp
next
  case (Cons x xs)
  show ?case
  proof (cases "clockodo_document (clock i) x")
    case (Inl e)
    then show ?thesis by simp
  next
    case (Inr d)
    then have "x \<noteq> row" using assms(2)[of "clock i"] by auto
    then have "row \<in> set xs" using Cons.prems by simp
    then show ?thesis using Cons.IH Inr by (simp add: Let_def split: sum.splits)
  qed
qed

lemma loop_accept_all_count:
  "\<exists>n \<le> length rows. \<forall>clock i st.
      (case clockodo_loop accept_all clock i rows st of
         (r, st') \<Rightarrow> (\<exists>new. docs (ts_coll st') = docs (ts_coll st) @ new \<and> length new = n) \<and>
                     (r = None \<longleftrightarrow> n = length rows))"
proof (induction rows)
  case Nil
  then show ?case by simp
next
  case (Cons x xs)
  then obtain n where n: "n \<le> length xs"
    and h: "\<And>clock i st. (case clockodo_loop accept_all clock i xs st of
         (r, st') \<Rightarrow> (\<exists>new. docs (ts_coll st') = docs (ts_coll st) @ new \<and> length new = n) \<and>
                     (r = None \<longleftrightarrow> n = length xs))"
    by blast
  show ?case
  proof (cases "\<forall>now. isl (clockodo_document now x)")
    case True
    then have il: "isl (clockodo_document now x)" for now
      by blast
    have "\<forall>clock i st. (case clockodo_loop accept_all clock i (x # xs) st of
         (r, st') \<Rightarrow> (\<exists>new. docs (ts_coll st') = docs (ts_coll st) @ new \<and> length new = 0) \<and>
                     (r = None \<longleftrightarrow> 0 = length (x # xs)))"
    proof (intro allI)
      fix clock :: "nat \<Rightarrow> datetime" and i :: nat and st :: clockodo_state
      obtain e where e: "clockodo_document (clock i) x = Inl e"
        using il[of "clock i"] by (cases "clockodo_document (clock i) x") auto
      have "clockodo_loop accept_all clock i (x # xs) st = (Some e, st)"
        by (simp add: e)
      then show "case clockodo_loop accept_all clock i (x # xs) st of
         (r, st') \<Rightarrow> (\<exists>new. docs (ts_coll st') = docs (ts_coll st) @ new \<and> length new = 0) \<and>
                     (r = None \<longleftrightarrow> 0 = length (x # xs))"
        by simp
    qed
    then show ?thesis by blast
  next
    case False
    then have nl: "\<not> isl (clockodo_document now x)" for now
      using document_isl_now by blast
    have "(case clockodo_loop accept_all clock i (x # xs) st of
         (r, st') \<Rightarrow> (\<exists>new. docs (ts_coll st') = docs (ts_coll st) @ new \<and> length new = Suc n) \<and>
                     (r = None \<longleftrightarrow> Suc n = length (x # xs)))" for clock i st
    proof -
      obtain d where d: "clockodo_document (clock i) x = Inr d"
        using nl[of "clock i"] by (cases "clockodo_document (clock i) x") auto
      let ?st = "st\<lparr>ts_coll := (ts_coll st)\<lparr>docs := docs (ts_coll st) @ [d]\<rparr>,
                     ts_imported := ts_imported st + 1,
                     ts_out := ts_out st @ (if (ts_imported st + 1) mod 100 = 0
                                            then [Progress (ts_imported st + 1)] else [])\<rparr>"
      have e: "clockodo_loop accept_all clock i (x # xs) st
                 = clockodo_loop accept_all clock (Suc i) xs ?st"
        by (simp add: d insert_one_def accept_all_def Let_def)
      show ?thesis
        unfolding e using h[where clock = clock and i = "Suc i" and st = ?st]
        by (auto split: prod.splits)
    qed
    then show ?thesis using n by (intro exI[of _ "Suc n"]) simp
  qed
qed

lemma number_1_5: "parse_german_number (Some ''1,5'') = Inr (Finite (3 / 2))"
proof -
  have d: "list_all is_digit ''1''" "list_all is_digit ''5''" "is_sign []"
    by (simp_all add: is_digit_def digits_def is_sign_def)
  have "py_float ''1.5'' = Some (Finite (3 / 2))"
    using py_float_decimal[of "''1''" "''5''" "[]"] d
    by (simp add: signed_def decimal_value_def nat_of_digits_def digit_val_def)
  then show ?thesis
    by (simp add: parse_german_number_def replace_char_def)
qed

lemma number_100_00: "parse_german_number (Some ''100,00'') = Inr (Finite 100)"
proof -
  have d: "list_all is_digit ''100''" "list_all is_digit ''00''" "is_sign []"
    by (simp_all add: is_digit_def digits_def is_sign_def)
  have "py_float ''100.00'' = Some (Finite 100)"
    using py_float_decimal[of "''100''" "''00''" "[]"] d
    by (simp add: signed_def decimal_value_def nat_of_digits_def digit_val_def)
  then show ?thesis
    by (simp add: parse_german_number_def replace_char_def)
qed

lemma month_2025_09: "parse_month (Some ''2025-09'') = Inr (Some (month_start 2025 9))"
proof -
  have dg: "is_digit CHR ''0''" "is_digit CHR ''2''" "is_digit CHR ''5''"
    by (simp_all add: is_digit_def digits_def)
  show ?thesis
    by (simp add: parse_month_def strptime_Ym_text dg month_texts_def nat_of_digits_def
          digit_val_def)
qed

lemma timesheet_row_document:
  "clockodo_document now (timesheet_row kunde ''2025-09'' ''1,5'')
     = Inr [(''kunde'', PStr (strip_char quote kunde)), (''projekt'', PStr ''Web''),
            (''monat'', PStr ''2025-09''), (''monat_date'', PDate (month_start 2025 9)),
            (''leistung'', PStr ''Dev''), (''mitarbeiter'', PStr ''Eva''),
            (''stunden'', PFloat (Finite (3 / 2))), (''umsatz_eur'', PFloat (Finite 100)),
            (''imported_at'', PDate now)]"
proof -
  have s: "strip_char quote ''Web'' = ''Web''" "strip_char quote ''Dev'' = ''Dev''"
          "strip_char quote ''Eva'' = ''Eva''" "strip_char quote ''100,00'' = ''100,00''"
    by (simp_all add: strip_char_def quote_def)
  show ?thesis
    by (simp add: clockodo_document_def bind_exn_def getitem_def timesheet_row_def
          strip_quotes_def s month_2025_09 number_1_5 number_100_00 of_raw_def of_date_def)
qed

text \<open>
  Claim C9. With a store that takes every insertion, a second run of the timesheet
  import over the same rows adds as many documents as the first run did: the count
  after two runs is the initial count plus twice what one run produced. A run appends
  one document for every row it reaches, whatever the collection already holds, and it
  reaches every row exactly when it reports success.
\<close>

theorem import_twice_doubles:
  "(let r1 = import_clockodo_data accept_all clock1 rows c;
        c1 = fst (snd r1);
        r2 = import_clockodo_data accept_all clock2 rows c1;
        c2 = fst (snd r2)
    in \<exists>new1 new2. docs c1 = docs c @ new1 \<and> docs c2 = docs c1 @ new2 \<and>
         length new2 = length new1 \<and>
         count_documents c2 = count_documents c + 2 * length new1 \<and>
         (fst r1 \<longleftrightarrow> length new1 = length rows) \<and> fst r2 = fst r1)"
proof -
  obtain n where n: "n \<le> length rows"
    and h: "\<And>clock i st. (case clockodo_loop accept_all clock i rows st of
         (r, st') \<Rightarrow> (\<exists>new. docs (ts_coll st') = docs (ts_coll st) @ new \<and> length new = n) \<and>
                     (r = None \<longleftrightarrow> n = length rows))"
    using loop_accept_all_count[of rows] by blast
  have run: "\<exists>new. docs (fst (snd (import_clockodo_data accept_all clock rows c0))) = docs c0 @ new
                 \<and> length new = n \<and>
                 (fst (import_clockodo_data accept_all clock rows c0) \<longleftrightarrow> n = length rows)"
    for clock c0
    using h[where clock = clock and i = 0 and st = "\<lparr>ts_coll = c0, ts_imported = 0, ts_out = []\<rparr>"]
    by (auto simp: import_clockodo_data_def split: prod.splits option.splits)
  let ?c1 = "fst (snd (import_clockodo_data accept_all clock1 rows c))"
  obtain new1 where 1: "docs ?c1 = docs c @ new1" "length new1 = n"
      "fst (import_clockodo_data accept_all clock1 rows c) \<longleftrightarrow> n = length rows"
    using run[of clock1 c] by blast
  obtain new2 where 2: "docs (fst (snd (import_clockodo_data accept_all clock2 rows ?c1)))
                          = docs ?c1 @ new2" "length new2 = n"
      "fst (import_clockodo_data accept_all clock2 rows ?c1) \<longleftrightarrow> n = length rows"
    using run[of clock2 ?c1] by blast
  show ?thesis
    unfolding Let_def
    using 1 2 by (intro exI[of _ new1] exI[of _ new2]) (simp add: count_documents_def)
qed

theorem import_twice_doubles_witness:
  "count_documents (fst (snd (import_clockodo_data accept_all example_clock
       [timesheet_row ''ACME'' ''2025-09'' ''1,5'', timesheet_row ''ACME'' ''2025-09'' ''1,5'']
       empty_collection))) = 2 \<and>
   count_documents (fst (snd (import_clockodo_data accept_all example_clock
       [timesheet_row ''ACME'' ''2025-09'' ''1,5'', timesheet_row ''ACME'' ''2025-09'' ''1,5'']
       (fst (snd (import_clockodo_data accept_all example_clock
          [timesheet_row ''ACME'' ''2025-09'' ''1,5'', timesheet_row ''ACME'' ''2025-09'' ''1,5'']
          empty_collection)))))) = 4"
proof -
  let ?rows = "[timesheet_row ''ACME'' ''2025-09'' ''1,5'', timesheet_row ''ACME'' ''2025-09'' ''1,5'']"
  have ok: "fst (import_clockodo_data accept_all example_clock ?rows empty_collection)"
    by (simp add: import_clockodo_data_def timesheet_row_document insert_one_def accept_all_def)
  have e: "docs empty_collection = []"
    by (simp add: empty_collection_def)
  obtain new1 new2 where
    h: "docs (fst (snd (import_clockodo_data accept_all example_clock ?rows empty_collection)))
          = docs empty_collection @ new1"
       "docs (fst (snd (import_clockodo_data accept_all example_clock ?rows
           (fst (snd (import_clockodo_data accept_all example_clock ?rows empty_collection))))))
          = docs (fst (snd (import_clockodo_data accept_all example_clock ?rows empty_collection)))
            @ new2"
       "length new2 = length new1"
       "fst (import_clockodo_data accept_all example_clock ?rows empty_collection)
          \<longleftrightarrow> length new1 = length ?rows"
    using import_twice_doubles[of example_clock ?rows empty_collection example_clock]
    unfolding Let_def by blast
  have "length new1 = 2" using h(4) ok by simp
  then show ?thesis
    using h(1,2,3) e by (simp add: count_documents_def)
qed

subsection \<open>Malformed numbers in the timesheet import\<close>

lemma malformed_number_raises:
  assumes "s \<noteq> []" "py_float (replace_char CHR '','' CHR ''.'' s) = None"
  shows "parse_german_number (Some s) = Inl ValueError"
  using assms by (simp add: parse_german_number_def)

lemma malformed_hours_document:
  assumes "row ''Stunden'' = Some (Some s)" "parse_german_number (Some s) = Inl ValueError"
  shows "isl (clockodo_document now row)"
  using assms unfolding clockodo_document_def
  by (simp add: bind_exn_isl getitem_def split: sum.splits option.splits)

lemma malformed_revenue_document:
  assumes "row ''Umsatz in EUR'' = Some (Some u)"
    "parse_german_number (Some (strip_char quote u)) = Inl ValueError"
  shows "isl (clockodo_document now row)"
  using assms unfolding clockodo_document_def
  by (simp add: bind_exn_isl getitem_def strip_quotes_def split: sum.splits option.splits)

lemma import_failure_report:
  assumes "fst (clockodo_loop accepts clock 0 rows \<lparr>ts_coll = c, ts_imported = 0, ts_out = []\<rparr>) \<noteq> None"
  shows "\<not> fst (import_clockodo_data accepts clock rows c)"
    and "\<exists>e out. snd (snd (import_clockodo_data accepts clock rows c)) = out @ [Import_error e]"
    and "fst (clockodo_main accepts clock rows c) = 1"
    and "\<exists>e out. snd (snd (clockodo_main accepts clock rows c)) = out @ [Import_error e, Import_failed]"
  using assms
  by (auto simp: import_clockodo_data_def clockodo_main_def split: prod.splits option.splits)

lemma loop_abort_at:
  assumes "clockodo_loop accepts clock i pre st = (None, st1)"
    and "clockodo_document (clock (i + length pre)) row = Inl e
         \<or> (\<exists>d. clockodo_document (clock (i + length pre)) row = Inr d \<and>
                  insert_one accepts (ts_coll st1) d = Inl e)"
  shows "clockodo_loop accepts clock i (pre @ row # post) st = (Some e, st1)"
  using assms by (auto simp: clockodo_loop_append)

lemma timesheet_row_bad_hours:
  "clockodo_document now (timesheet_row kunde ''2025-09'' ''abc'') = Inl ValueError"
proof -
  have s: "strip_char quote ''Web'' = ''Web''" "strip_char quote ''Dev'' = ''Dev''"
          "strip_char quote ''Eva'' = ''Eva''"
    by (simp_all add: strip_char_def quote_def)
  have "py_float ''abc'' = None"
    by (simp add: py_float_def float_strip_def float_space_def parse_float_body_def
          split_sign_def lower_char_def parse_finite_def is_digit_def digits_def)
  then have n: "parse_german_number (Some ''abc'') = Inl ValueError"
    by (simp add: parse_german_number_def replace_char_def)
  show ?thesis
    by (simp add: clockodo_document_def bind_exn_def getitem_def timesheet_row_def
          strip_quotes_def s month_2025_09 n)
qed

text \<open>
  Claim C4, as stated, fails: \<open>nan\<close> is not empty and not a decimal numeral, before or
  after the substitution, and the timesheet number parser returns the float NaN for it
  instead of raising.
\<close>

theorem parse_german_number_nan_counterexample:
  "''nan'' \<noteq> [] \<and> \<not> plain_decimal (replace_char CHR '','' CHR ''.'' ''nan'') \<and>
   parse_german_number (Some ''nan'') = Inr NaN"
proof -
  have "replace_char CHR '','' CHR ''.'' ''nan'' = ''nan''"
    by (simp add: replace_char_def)
  moreover have "parse_german_number (Some ''nan'') = Inr NaN"
    by code_simp
  ultimately show ?thesis using nan_not_decimal by simp
qed

text \<open>
  Claim C4, amended. For a non-empty text that the conversion \<open>float\<close> refuses after
  the commas have been replaced by points, the timesheet number parser raises
  \<open>ValueError\<close>; it yields neither zero nor absent. When such a text stands in the
  hours column of a row of the file, or in its revenue column once the quotes around it
  are stripped, the import does not complete: \<open>import_clockodo_data\<close> returns \<open>False\<close>
  after printing the error, and \<open>main\<close> prints the failure message and exits with
  status 1. When the rows before it were imported and the fields before it were read,
  the error reported is this \<open>ValueError\<close>, the documents of the earlier rows stay in the
  collection, and the rows after it are not read. The conversion accepts more than
  decimal numerals (\<open>nan\<close>, \<open>inf\<close>, exponents, surrounding whitespace, underscores between
  digits); for those texts no error is raised.
\<close>

theorem malformed_number_aborts_import:
  "s \<noteq> [] \<and> py_float (replace_char CHR '','' CHR ''.'' s) = None \<longrightarrow>
     parse_german_number (Some s) = Inl ValueError \<and>
     (row \<in> set rows \<and>
      (row ''Stunden'' = Some (Some s) \<or>
       (\<exists>u. row ''Umsatz in EUR'' = Some (Some u) \<and> strip_char quote u = s)) \<longrightarrow>
        \<not> fst (import_clockodo_data accepts clock rows c) \<and>
        (\<exists>e out. snd (snd (import_clockodo_data accepts clock rows c)) = out @ [Import_error e]) \<and>
        fst (clockodo_main accepts clock rows c) = 1 \<and>
        (\<exists>e out. snd (snd (clockodo_main accepts clock rows c))
                    = out @ [Import_error e, Import_failed])) \<and>
     (clockodo_loop accepts clock 0 pre \<lparr>ts_coll = c, ts_imported = 0, ts_out = []\<rparr> = (None, st1) \<and>
      clockodo_document (clock (length pre)) row = Inl ValueError \<longrightarrow>
        import_clockodo_data accepts clock (pre @ row # post) c
          = (False, ts_coll st1, ts_out st1 @ [Import_error ValueError]) \<and>
        clockodo_main accepts clock (pre @ row # post) c
          = (1, ts_coll st1, ts_out st1 @ [Import_error ValueError, Import_failed]))"
proof (intro impI conjI)
  assume a: "s \<noteq> [] \<and> py_float (replace_char CHR '','' CHR ''.'' s) = None"
  then show v: "parse_german_number (Some s) = Inl ValueError"
    using malformed_number_raises by blast
  {
    assume b: "row \<in> set rows \<and>
      (row ''Stunden'' = Some (Some s) \<or>
       (\<exists>u. row ''Umsatz in EUR'' = Some (Some u) \<and> strip_char quote u = s))"
    have "isl (clockodo_document now row)" for now
      using b v malformed_hours_document malformed_revenue_document by blast
    then have f: "fst (clockodo_loop accepts clock 0 rows \<lparr>ts_coll = c, ts_imported = 0, ts_out = []\<rparr>)
                    \<noteq> None"
      using loop_failing_row b by blast
    show "\<not> fst (import_clockodo_data accepts clock rows c)"
      by (rule import_failure_report(1)[OF f])
    show "\<exists>e out. snd (snd (import_clockodo_data accepts clock rows c)) = out @ [Import_error e]"
      by (rule import_failure_report(2)[OF f])
    show "fst (clockodo_main accepts clock rows c) = 1"
      by (rule import_failure_report(3)[OF f])
    show "\<exists>e out. snd (snd (clockodo_main accepts clock rows c))
                    = out @ [Import_error e, Import_failed]"
      by (rule import_failure_report(4)[OF f])
  }
  {
    assume d: "clockodo_loop accepts clock 0 pre \<lparr>ts_coll = c, ts_imported = 0, ts_out = []\<rparr>
                 = (None, st1) \<and>
               clockodo_document (clock (length pre)) row = Inl ValueError"
    then have l: "clockodo_loop accepts clock 0 (pre @ row # post)
                    \<lparr>ts_coll = c, ts_imported = 0, ts_out = []\<rparr> = (Some ValueError, st1)"
      using loop_abort_at[of accepts clock 0 pre _ st1 row ValueError post] by simp
    show i: "import_clockodo_data accepts clock (pre @ row # post) c
          = (False, ts_coll st1, ts_out st1 @ [Import_error ValueError])"
      by (simp add: import_clockodo_data_def l)
    show "clockodo_main accepts clock (pre @ row # post) c
          = (1, ts_coll st1, ts_out st1 @ [Import_error ValueError, Import_failed])"
      by (simp add: clockodo_main_def i)
  }
qed

theorem malformed_number_aborts_import_witness:
  "''abc'' \<noteq> [] \<and> py_float (replace_char CHR '','' CHR ''.'' ''abc'') = None \<and>
   timesheet_row ''ACME'' ''2025-09'' ''abc'' ''Stunden'' = Some (Some ''abc'') \<and>
   parse_german_number (Some ''abc'') = Inl ValueError \<and>
   clockodo_document (example_clock 1) (timesheet_row ''ACME'' ''2025-09'' ''abc'') = Inl ValueError \<and>
   \<not> fst (import_clockodo_data accept_all example_clock
           [timesheet_row ''ACME'' ''2025-09'' ''1,5'', timesheet_row ''ACME'' ''2025-09'' ''abc'',
            timesheet_row ''ACME'' ''2025-09'' ''1,5''] empty_collection) \<and>
   count_documents (fst (snd (import_clockodo_data accept_all example_clock
           [timesheet_row ''ACME'' ''2025-09'' ''1,5'', timesheet_row ''ACME'' ''2025-09'' ''abc'',
            timesheet_row ''ACME'' ''2025-09'' ''1,5''] empty_collection))) = 1 \<and>
   snd (snd (clockodo_main accept_all example_clock
           [timesheet_row ''ACME'' ''2025-09'' ''1,5'', timesheet_row ''ACME'' ''2025-09'' ''abc'',
            timesheet_row ''ACME'' ''2025-09'' ''1,5''] empty_collection))
     = [Import_error ValueError, Import_failed] \<and>
   fst (clockodo_main accept_all example_clock
           [timesheet_row ''ACME'' ''2025-09'' ''1,5'', timesheet_row ''ACME'' ''2025-09'' ''abc'',
            timesheet_row ''ACME'' ''2025-09'' ''1,5''] empty_collection) = 1"
proof -
  let ?good = "timesheet_row ''ACME'' ''2025-09'' ''1,5''"
  let ?bad = "timesheet_row ''ACME'' ''2025-09'' ''abc''"
  let ?st0 = "\<lparr>ts_coll = empty_collection, ts_imported = 0, ts_out = []\<rparr>"
  let ?st1 = "snd (clockodo_loop accept_all example_clock 0 [?good] ?st0)"
  have f: "py_float (replace_char CHR '','' CHR ''.'' ''abc'') = None"
    by (simp add: replace_char_def py_float_def float_strip_def float_space_def
          parse_float_body_def split_sign_def lower_char_def parse_finite_def is_digit_def
          digits_def)
  have r: "?bad ''Stunden'' = Some (Some ''abc'')"
    by (simp add: timesheet_row_def)
  have p: "clockodo_loop accept_all example_clock 0 [?good] ?st0 = (None, ?st1)"
    by (simp add: timesheet_row_document insert_one_def accept_all_def)
  have s: "ts_out ?st1 = []" "count_documents (ts_coll ?st1) = 1"
    by (simp_all add: timesheet_row_document insert_one_def accept_all_def count_documents_def
          empty_collection_def)
  have b: "clockodo_document (example_clock 1) ?bad = Inl ValueError"
    by (rule timesheet_row_bad_hours)
  show ?thesis
    using malformed_number_aborts_import[of "''abc''" ?bad "[?good, ?bad, ?good]" accept_all
            example_clock empty_collection "[?good]" ?st1 "[?good]"]
          f r p s b
    by simp
qed

section \<open>Failing rows in the two imports\<close>

lemma deal_row_transform:
  "transform_deal_row now (deal_row ident) = (Inr (deal_doc ident now), [])"
  by (simp add: transform_deal_row_def deal_columns_def deal_row_def deal_doc_def
        parse_number_def parse_date_def of_raw_def of_number_def of_date_def)

lemma deal_doc_id: "map_of (deal_doc ident now) ''deal_id'' = Some (PStr ident)"
  by (simp add: deal_doc_def deal_columns_def)

lemma empty_row_transform:
  "transform_deal_row now Map.empty = (Inl (KeyError ''Deal - Titel''), [])"
  by (simp add: transform_deal_row_def deal_columns_def)

lemma convert_no_row_error: "row_errors (snd (convert cv v)) = 0"
  by (cases cv)
     (auto simp: row_errors_def parse_number_def parse_date_def split: option.splits prod.splits)

lemma row_errors_append: "row_errors (xs @ ys) = row_errors xs + row_errors ys"
  by (simp add: row_errors_def)

lemma transform_fields_no_row_error: "row_errors (snd (transform_fields row tbl)) = 0"
proof (induction tbl)
  case Nil
  then show ?case by (simp add: row_errors_def)
next
  case (Cons f fs)
  obtain k col cv where f: "f = (k, col, cv)" by (cases f) auto
  show ?case
  proof (cases "row col")
    case None
    then show ?thesis by (simp add: f row_errors_def)
  next
    case (Some v)
    obtain x w where c: "convert cv v = (x, w)" by (cases "convert cv v") auto
    have "row_errors w = 0" using convert_no_row_error[of cv v] c by simp
    then show ?thesis
      using Cons.IH by (auto simp: f Some c row_errors_append split: prod.splits sum.splits)
  qed
qed

lemma transform_no_row_error:
  "transform_deal_row now row = (r, w) \<Longrightarrow> row_errors w = 0"
  using transform_fields_no_row_error[of row deal_columns]
  by (auto simp: transform_deal_row_def split: prod.splits sum.splits)

lemma step_accounting:
  "dl_imported (deals_step accepts now row st) + dl_skipped (deals_step accepts now row st)
     + row_errors (dl_out (deals_step accepts now row st))
   = dl_imported st + dl_skipped st + row_errors (dl_out st) + 1"
proof (cases "transform_deal_row now row")
  case (Pair r w)
  have w: "row_errors w = 0" using transform_no_row_error[OF Pair] .
  show ?thesis
  proof (cases r)
    case (Inl e)
    then show ?thesis
      using Pair w by (simp add: step_transform_error row_errors_append) (simp add: row_errors_def)
  next
    case (Inr d)
    then have t: "transform_deal_row now row = (Inr d, w)" using Pair by simp
    obtain v0 where v: "map_of d ''deal_id'' = Some (of_raw v0)"
      using deal_id_field[OF t] by blast
    show ?thesis
    proof (cases "truthy (of_raw v0) \<and> find_one (dl_coll st) ''deal_id'' (of_raw v0) \<noteq> None")
      case True
      then show ?thesis
        using step_skip[OF t v] w by (simp add: row_errors_append) (simp add: row_errors_def)
    next
      case False
      then have f: "\<not> truthy (of_raw v0) \<or> find_one (dl_coll st) ''deal_id'' (of_raw v0) = None"
        by simp
      show ?thesis
      proof (cases "accepts (dl_coll st) d")
        case True
        show ?thesis
          using step_insert[where accepts = accepts, OF t v f True] w
          by (simp add: row_errors_append) (simp add: row_errors_def)
      next
        case False
        show ?thesis
          using step_refused[where accepts = accepts, OF t v f False] w
          by (simp add: row_errors_append) (simp add: row_errors_def)
      qed
    qed
  qed
qed

lemma loop_accounting:
  "dl_imported (deals_loop accepts clock i rows st) + dl_skipped (deals_loop accepts clock i rows st)
     + row_errors (dl_out (deals_loop accepts clock i rows st))
   = dl_imported st + dl_skipped st + row_errors (dl_out st) + length rows"
proof (induction rows arbitrary: i st)
  case Nil
  then show ?case by simp
next
  case (Cons x xs)
  show ?case
    using Cons.IH[of "Suc i" "deals_step accepts (clock i) x st"]
          step_accounting[of accepts "clock i" x st]
    by simp
qed

text \<open>
  Claim C8. In the deal import a row whose transformation raises, or whose insertion
  the store refuses, changes neither the collection nor the counters: the error is
  printed and the loop goes on with the rows after it, so that every row of the file is
  accounted for as imported, skipped or failed. In the timesheet import nothing catches
  a refused insertion inside the loop: the rows after it are not read,
  \<open>import_clockodo_data\<close> prints the error and returns \<open>False\<close>, and \<open>main\<close> prints the
  failure message and exits with status 1.
\<close>

theorem row_failure_policies:
  "(transform_deal_row (clock (i + length pre)) row = (Inl e, w) \<longrightarrow>
      deals_loop accepts clock i (pre @ row # post) st
        = deals_loop accepts clock (Suc (i + length pre)) post
            ((deals_loop accepts clock i pre st)
               \<lparr>dl_out := dl_out (deals_loop accepts clock i pre st) @ w @ [Row_error e]\<rparr>)) \<and>
   (transform_deal_row (clock (i + length pre)) row = (Inr d, w) \<and>
    map_of d ''deal_id'' = Some v \<and>
    (\<not> truthy v \<or> find_one (dl_coll (deals_loop accepts clock i pre st)) ''deal_id'' v = None) \<and>
    \<not> accepts (dl_coll (deals_loop accepts clock i pre st)) d \<longrightarrow>
      deals_loop accepts clock i (pre @ row # post) st
        = deals_loop accepts clock (Suc (i + length pre)) post
            ((deals_loop accepts clock i pre st)
               \<lparr>dl_out := dl_out (deals_loop accepts clock i pre st) @ w @ [Row_error SinkError]\<rparr>)) \<and>
   dl_imported (deals_loop accepts clock i rows st) + dl_skipped (deals_loop accepts clock i rows st)
     + row_errors (dl_out (deals_loop accepts clock i rows st))
   = dl_imported st + dl_skipped st + row_errors (dl_out st) + length rows \<and>
   (clockodo_loop accepts clock 0 pre \<lparr>ts_coll = c, ts_imported = 0, ts_out = []\<rparr> = (None, st1) \<and>
    clockodo_document (clock (length pre)) trow = Inr td \<and> \<not> accepts (ts_coll st1) td \<longrightarrow>
      import_clockodo_data accepts clock (pre @ trow # post) c
        = (False, ts_coll st1, ts_out st1 @ [Import_error SinkError]) \<and>
      clockodo_main accepts clock (pre @ trow # post) c
        = (1, ts_coll st1, ts_out st1 @ [Import_error SinkError, Import_failed]))"
proof (intro conjI impI)
  let ?st1 = "deals_loop accepts clock i pre st"
  show "deals_loop accepts clock i (pre @ row # post) st
        = deals_loop accepts clock (Suc (i + length pre)) post
            (?st1\<lparr>dl_out := dl_out ?st1 @ w @ [Row_error e]\<rparr>)"
    if "transform_deal_row (clock (i + length pre)) row = (Inl e, w)"
    using step_transform_error[OF that, of accepts ?st1] by (simp add: deals_loop_append)
  show "deals_loop accepts clock i (pre @ row # post) st
        = deals_loop accepts clock (Suc (i + length pre)) post
            (?st1\<lparr>dl_out := dl_out ?st1 @ w @ [Row_error SinkError]\<rparr>)"
    if h: "transform_deal_row (clock (i + length pre)) row = (Inr d, w) \<and>
        map_of d ''deal_id'' = Some v \<and>
        (\<not> truthy v \<or> find_one (dl_coll ?st1) ''deal_id'' v = None) \<and>
        \<not> accepts (dl_coll ?st1) d"
  proof -
    have "deals_step accepts (clock (i + length pre)) row ?st1
            = ?st1\<lparr>dl_out := dl_out ?st1 @ w @ [Row_error SinkError]\<rparr>"
      using h by (intro step_refused[where accepts = accepts and v = v and d = d]) auto
    then show ?thesis by (simp add: deals_loop_append)
  qed
  show "dl_imported (deals_loop accepts clock i rows st) + dl_skipped (deals_loop accepts clock i rows st)
     + row_errors (dl_out (deals_loop accepts clock i rows st))
   = dl_imported st + dl_skipped st + row_errors (dl_out st) + length rows"
    by (rule loop_accounting)
  {
    assume h: "clockodo_loop accepts clock 0 pre \<lparr>ts_coll = c, ts_imported = 0, ts_out = []\<rparr>
                 = (None, st1) \<and>
               clockodo_document (clock (length pre)) trow = Inr td \<and> \<not> accepts (ts_coll st1) td"
    then have "insert_one accepts (ts_coll st1) td = Inl SinkError"
      by (simp add: insert_one_def)
    then have l: "clockodo_loop accepts clock 0 (pre @ trow # post)
                    \<lparr>ts_coll = c, ts_imported = 0, ts_out = []\<rparr> = (Some SinkError, st1)"
      using h loop_abort_at[of accepts clock 0 pre _ st1 trow SinkError post] by simp
    show i: "import_clockodo_data accepts clock (pre @ trow # post) c
          = (False, ts_coll st1, ts_out st1 @ [Import_error SinkError])"
      by (simp add: import_clockodo_data_def l)
    show "clockodo_main accepts clock (pre @ trow # post) c
          = (1, ts_coll st1, ts_out st1 @ [Import_error SinkError, Import_failed])"
      by (simp add: clockodo_main_def i)
  }
qed

lemma step_example_insert:
  assumes "find_one (dl_coll st) ''deal_id'' (PStr ident) = None \<or> ident = []"
    "accepts (dl_coll st) (deal_doc ident now)" "(dl_imported st + 1) mod 10 \<noteq> 0"
  shows "deals_step accepts now (deal_row ident) st
           = st\<lparr>dl_coll := (dl_coll st)\<lparr>docs := docs (dl_coll st) @ [deal_doc ident now]\<rparr>,
                 dl_imported := dl_imported st + 1, dl_out := dl_out st\<rparr>"
  using step_insert[where accepts = accepts, OF deal_row_transform deal_doc_id, of ident st now]
        assms
  by auto

theorem row_failure_policies_witness:
  "transform_deal_row (example_clock 0) Map.empty = (Inl (KeyError ''Deal - Titel''), []) \<and>
   deals_loop accept_all example_clock 0 [Map.empty, deal_row ''7''] (deals_start empty_collection)
     = \<lparr>dl_coll = \<lparr>docs = [deal_doc ''7'' example_time], indexes = []\<rparr>,
        dl_imported = 1, dl_skipped = 0, dl_out = [Row_error (KeyError ''Deal - Titel'')]\<rparr> \<and>
   transform_deal_row (example_clock 0) (deal_row []) = (Inr (deal_doc [] example_time), []) \<and>
   map_of (deal_doc [] example_time) ''deal_id'' = Some (PStr []) \<and> \<not> truthy (PStr []) \<and>
   \<not> accepts_unique indexed_collection (deal_doc [] example_time) \<and>
   deals_loop accepts_unique example_clock 0 [deal_row [], deal_row ''7'']
       (deals_start indexed_collection)
     = \<lparr>dl_coll = \<lparr>docs = [deal_doc [] example_time, deal_doc ''7'' example_time],
                    indexes = [(''deal_id'', True, True)]\<rparr>,
        dl_imported = 1, dl_skipped = 0, dl_out = [Row_error SinkError]\<rparr> \<and>
   clockodo_document (example_clock 0) (timesheet_row ''ACME'' ''2025-09'' ''1,5'')
     = Inr [(''kunde'', PStr ''ACME''), (''projekt'', PStr ''Web''),
            (''monat'', PStr ''2025-09''), (''monat_date'', PDate (month_start 2025 9)),
            (''leistung'', PStr ''Dev''), (''mitarbeiter'', PStr ''Eva''),
            (''stunden'', PFloat (Finite (3 / 2))), (''umsatz_eur'', PFloat (Finite 100)),
            (''imported_at'', PDate example_time)] \<and>
   clockodo_main refuse_all example_clock
       [timesheet_row ''ACME'' ''2025-09'' ''1,5'', timesheet_row ''ACME'' ''2025-09'' ''1,5'']
       empty_collection
     = (1, empty_collection, [Import_error SinkError, Import_failed])"
proof -
  let ?t = "example_time"
  let ?good = "timesheet_row ''ACME'' ''2025-09'' ''1,5''"
  let ?td = "[(''kunde'', PStr ''ACME''), (''projekt'', PStr ''Web''),
            (''monat'', PStr ''2025-09''), (''monat_date'', PDate (month_start 2025 9)),
            (''leistung'', PStr ''Dev''), (''mitarbeiter'', PStr ''Eva''),
            (''stunden'', PFloat (Finite (3 / 2))), (''umsatz_eur'', PFloat (Finite 100)),
            (''imported_at'', PDate example_time)]"
  have a: "transform_deal_row (example_clock (0 + length ([] :: raw_row list))) Map.empty
             = (Inl (KeyError ''Deal - Titel''), [])"
    by (rule empty_row_transform)
  have 1: "deals_loop accept_all example_clock 0 [Map.empty, deal_row ''7'']
             (deals_start empty_collection)
           = deals_loop accept_all example_clock (Suc 0) [deal_row ''7'']
               ((deals_start empty_collection)\<lparr>dl_out := [Row_error (KeyError ''Deal - Titel'')]\<rparr>)"
    using row_failure_policies[where clock = example_clock and i = 0 and pre = "[]"
            and row = Map.empty and e = "KeyError ''Deal - Titel''" and w = "[]"
            and accepts = accept_all and post = "[deal_row ''7'']"
            and st = "deals_start empty_collection"] a
    by (simp add: deals_start_def)
  have 2: "deals_loop accept_all example_clock (Suc 0) [deal_row ''7'']
               ((deals_start empty_collection)\<lparr>dl_out := [Row_error (KeyError ''Deal - Titel'')]\<rparr>)
           = \<lparr>dl_coll = \<lparr>docs = [deal_doc ''7'' example_time], indexes = []\<rparr>,
              dl_imported = 1, dl_skipped = 0, dl_out = [Row_error (KeyError ''Deal - Titel'')]\<rparr>"
    by (simp add: step_example_insert deals_start_def empty_collection_def find_one_def
          accept_all_def example_clock_def)
  have b: "transform_deal_row (example_clock (0 + length ([] :: raw_row list))) (deal_row [])
             = (Inr (deal_doc [] ?t), [])"
    by (simp add: deal_row_transform example_clock_def)
  have r: "\<not> accepts_unique indexed_collection (deal_doc [] ?t)"
    by (simp add: accepts_unique_def indexed_collection_def index_keys_def
          List.map_filter_simps deal_doc_id)
  have 3: "deals_loop accepts_unique example_clock 0 [deal_row [], deal_row ''7'']
             (deals_start indexed_collection)
           = deals_loop accepts_unique example_clock (Suc 0) [deal_row ''7'']
               ((deals_start indexed_collection)\<lparr>dl_out := [Row_error SinkError]\<rparr>)"
    using row_failure_policies[where clock = example_clock and i = 0 and pre = "[]"
            and row = "deal_row []" and d = "deal_doc [] ?t" and w = "[]" and v = "PStr []"
            and accepts = accepts_unique and post = "[deal_row ''7'']"
            and st = "deals_start indexed_collection"] b r
    by (simp add: deals_start_def deal_doc_id)
  have acc: "accepts_unique indexed_collection (deal_doc ''7'' ?t)"
    by (simp add: accepts_unique_def indexed_collection_def index_keys_def
          List.map_filter_simps deal_doc_id)
  have 4: "deals_loop accepts_unique example_clock (Suc 0) [deal_row ''7'']
               ((deals_start indexed_collection)\<lparr>dl_out := [Row_error SinkError]\<rparr>)
           = \<lparr>dl_coll = \<lparr>docs = [deal_doc [] ?t, deal_doc ''7'' ?t],
                          indexes = [(''deal_id'', True, True)]\<rparr>,
              dl_imported = 1, dl_skipped = 0, dl_out = [Row_error SinkError]\<rparr>"
  proof -
    let ?st = "(deals_start indexed_collection)\<lparr>dl_out := [Row_error SinkError]\<rparr>"
    have f: "find_one (dl_coll ?st) ''deal_id'' (PStr ''7'') = None \<or> ''7'' = []"
      by (simp add: deals_start_def indexed_collection_def find_one_def deal_doc_id)
    have c: "accepts_unique (dl_coll ?st) (deal_doc ''7'' ?t)"
      using acc by (simp add: deals_start_def)
    have m: "(dl_imported ?st + 1) mod 10 \<noteq> 0"
      by (simp add: deals_start_def)
    show ?thesis
      using step_example_insert[where accepts = accepts_unique, OF f c m]
      by (simp add: deals_start_def indexed_collection_def example_clock_def)
  qed
  have d: "clockodo_document (example_clock (length ([] :: raw_row list))) ?good = Inr ?td"
    by (simp add: timesheet_row_document strip_char_def quote_def example_clock_def)
  have 5: "clockodo_main refuse_all example_clock ([] @ ?good # [?good]) empty_collection
             = (1, empty_collection, [Import_error SinkError, Import_failed])"
    using row_failure_policies[where clock = example_clock and pre = "[]" and trow = ?good
            and td = ?td and accepts = refuse_all and post = "[?good]" and c = empty_collection
            and ?st1.0 = "\<lparr>ts_coll = empty_collection, ts_imported = 0, ts_out = []\<rparr>"] d
    by (simp add: refuse_all_def)
  show ?thesis
    using a b r d 1 2 3 4 5 by (simp add: deal_doc_id)
qed

section \<open>The deal identifier\<close>

lemma empty_identifier_field:
  assumes "transform_deal_row now row = (Inr d, w)" "row ''Deal - ID'' = Some (Some [])"
  shows "map_of d ''deal_id'' = Some (PStr [])"
  using deal_id_field[OF assms(1)] assms(2) by (auto simp: of_raw_def)

text \<open>
  Claim C10. A deal row whose identifier field is the empty string is never looked up
  and never counted as skipped, whatever the collection holds: the insertion is always
  attempted. When the store takes it, the document is appended and counted as imported,
  next to any documents with an empty identifier that are already there; when the store
  refuses it, the refusal is printed as a row error.
\<close>

theorem empty_identifier_bypasses_check:
  "transform_deal_row now row = (Inr d, w) \<and> row ''Deal - ID'' = Some (Some []) \<longrightarrow>
     dl_skipped (deals_step accepts now row st) = dl_skipped st \<and>
     (accepts (dl_coll st) d \<longrightarrow>
        deals_step accepts now row st
          = st\<lparr>dl_coll := (dl_coll st)\<lparr>docs := docs (dl_coll st) @ [d]\<rparr>,
                dl_imported := dl_imported st + 1,
                dl_out := dl_out st @ w @
                  (if (dl_imported st + 1) mod 10 = 0 then [Progress (dl_imported st + 1)] else [])\<rparr> \<and>
        with_id (dl_coll (deals_step accepts now row st)) (PStr [])
          = with_id (dl_coll st) (PStr []) @ [d]) \<and>
     (\<not> accepts (dl_coll st) d \<longrightarrow>
        deals_step accepts now row st = st\<lparr>dl_out := dl_out st @ w @ [Row_error SinkError]\<rparr>)"
proof (intro impI)
  assume h: "transform_deal_row now row = (Inr d, w) \<and> row ''Deal - ID'' = Some (Some [])"
  then have t: "transform_deal_row now row = (Inr d, w)" by simp
  have v: "map_of d ''deal_id'' = Some (PStr [])"
    using empty_identifier_field h by blast
  have f: "\<not> truthy (PStr []) \<or> find_one (dl_coll st) ''deal_id'' (PStr []) = None"
    by simp
  have ins: "deals_step accepts now row st
          = st\<lparr>dl_coll := (dl_coll st)\<lparr>docs := docs (dl_coll st) @ [d]\<rparr>,
                dl_imported := dl_imported st + 1,
                dl_out := dl_out st @ w @
                  (if (dl_imported st + 1) mod 10 = 0 then [Progress (dl_imported st + 1)] else [])\<rparr>"
    if "accepts (dl_coll st) d"
    by (rule step_insert[where accepts = accepts, OF t v f that])
  have ref: "deals_step accepts now row st = st\<lparr>dl_out := dl_out st @ w @ [Row_error SinkError]\<rparr>"
    if "\<not> accepts (dl_coll st) d"
    by (rule step_refused[where accepts = accepts, OF t v f that])
  have sk: "dl_skipped (deals_step accepts now row st) = dl_skipped st"
  proof (cases "accepts (dl_coll st) d")
    case True
    then show ?thesis using ins by simp
  next
    case False
    then show ?thesis using ref by simp
  qed
  have wi: "with_id (dl_coll (deals_step accepts now row st)) (PStr [])
          = with_id (dl_coll st) (PStr []) @ [d]"
    if "accepts (dl_coll st) d"
    using ins[OF that] v by (simp add: with_id_append)
  show "dl_skipped (deals_step accepts now row st) = dl_skipped st \<and>
     (accepts (dl_coll st) d \<longrightarrow>
        deals_step accepts now row st
          = st\<lparr>dl_coll := (dl_coll st)\<lparr>docs := docs (dl_coll st) @ [d]\<rparr>,
                dl_imported := dl_imported st + 1,
                dl_out := dl_out st @ w @
                  (if (dl_imported st + 1) mod 10 = 0 then [Progress (dl_imported st + 1)] else [])\<rparr> \<and>
        with_id (dl_coll (deals_step accepts now row st)) (PStr [])
          = with_id (dl_coll st) (PStr []) @ [d]) \<and>
     (\<not> accepts (dl_coll st) d \<longrightarrow>
        deals_step accepts now row st = st\<lparr>dl_out := dl_out st @ w @ [Row_error SinkError]\<rparr>)"
    using sk ins ref wi by blast
qed

theorem empty_identifier_bypasses_check_witness:
  "transform_deal_row example_time (deal_row []) = (Inr (deal_doc [] example_time), []) \<and>
   deal_row [] ''Deal - ID'' = Some (Some []) \<and>
   with_id unindexed_collection (PStr []) = [deal_doc [] example_time] \<and>
   accept_all unindexed_collection (deal_doc [] example_time) \<and>
   deals_step accept_all example_time (deal_row []) (deals_start unindexed_collection)
     = \<lparr>dl_coll = \<lparr>docs = [deal_doc [] example_time, deal_doc [] example_time], indexes = []\<rparr>,
        dl_imported = 1, dl_skipped = 0, dl_out = []\<rparr> \<and>
   with_id (dl_coll (deals_step accept_all example_time (deal_row [])
                       (deals_start unindexed_collection))) (PStr [])
     = [deal_doc [] example_time, deal_doc [] example_time] \<and>
   \<not> refuse_all unindexed_collection (deal_doc [] example_time) \<and>
   deals_step refuse_all example_time (deal_row []) (deals_start unindexed_collection)
     = \<lparr>dl_coll = unindexed_collection, dl_imported = 0, dl_skipped = 0,
        dl_out = [Row_error SinkError]\<rparr>"
proof -
  have r: "deal_row [] ''Deal - ID'' = Some (Some [])"
    by (simp add: deal_row_def deal_columns_def)
  have w: "with_id unindexed_collection (PStr []) = [deal_doc [] example_time]"
    by (simp add: with_id_def unindexed_collection_def deal_doc_id)
  show ?thesis
    using empty_identifier_bypasses_check[of example_time "deal_row []" "deal_doc [] example_time"
            "[]" accept_all "deals_start unindexed_collection"]
          empty_identifier_bypasses_check[of example_time "deal_row []" "deal_doc [] example_time"
            "[]" refuse_all "deals_start unindexed_collection"]
          r w w[unfolded unindexed_collection_def] deal_row_transform[of example_time "[]"]
    by (simp add: accept_all_def refuse_all_def deals_start_def unindexed_collection_def
          with_id_def deal_doc_id)
qed

lemma step_example_rows_twice:
  "deals_loop accept_all example_clock 0 [deal_row [], deal_row []] (deals_start empty_collection)
     = \<lparr>dl_coll = \<lparr>docs = [deal_doc [] example_time, deal_doc [] example_time], indexes = []\<rparr>,
        dl_imported = 2, dl_skipped = 0, dl_out = []\<rparr>"
proof -
  let ?st0 = "deals_start empty_collection"
  let ?st1 = "\<lparr>dl_coll = \<lparr>docs = [deal_doc [] example_time], indexes = []\<rparr>,
               dl_imported = 1, dl_skipped = 0, dl_out = []\<rparr>"
  have f: "find_one (dl_coll st) ''deal_id'' (PStr []) = None \<or> ([] :: string) = []" for st
    by simp
  have a: "accept_all (dl_coll st) (deal_doc [] example_time)" for st
    by (simp add: accept_all_def)
  have m0: "(dl_imported ?st0 + 1) mod 10 \<noteq> 0"
    by (simp add: deals_start_def)
  have m1: "(dl_imported ?st1 + 1) mod 10 \<noteq> 0"
    by simp
  have 1: "deals_step accept_all example_time (deal_row []) ?st0 = ?st1"
    using step_example_insert[where accepts = accept_all, OF f a m0]
    by (simp add: deals_start_def empty_collection_def)
  have 2: "deals_step accept_all example_time (deal_row []) ?st1
             = \<lparr>dl_coll = \<lparr>docs = [deal_doc [] example_time, deal_doc [] example_time],
                            indexes = []\<rparr>,
                dl_imported = 2, dl_skipped = 0, dl_out = []\<rparr>"
    using step_example_insert[where accepts = accept_all, OF f a m1]
    by simp
  have "deals_loop accept_all example_clock 0 [deal_row [], deal_row []] ?st0
          = deals_step accept_all example_time (deal_row [])
              (deals_step accept_all example_time (deal_row []) ?st0)"
    by (simp add: example_clock_def)
  then show ?thesis
    unfolding 1 2 .
qed

text \<open>
  Claim C2, as stated, fails for the empty identifier: two rows that both carry the
  identifier \<open>''\<close> are both inserted, none is skipped, and the collection ends with two
  documents with that identifier.
\<close>

theorem same_empty_identifier_counterexample:
  "deal_row [] ''Deal - ID'' = Some (Some []) \<and>
   length (with_id (dl_coll (deals_loop accept_all example_clock 0 [deal_row [], deal_row []]
                               (deals_start empty_collection))) (PStr [])) = 2 \<and>
   dl_skipped (deals_loop accept_all example_clock 0 [deal_row [], deal_row []]
                 (deals_start empty_collection)) = 0 \<and>
   dl_imported (deals_loop accept_all example_clock 0 [deal_row [], deal_row []]
                  (deals_start empty_collection)) = 2"
proof -
  have "deal_row [] ''Deal - ID'' = Some (Some [])"
    by (simp add: deal_row_def deal_columns_def)
  then show ?thesis
    unfolding step_example_rows_twice by (simp add: with_id_def deal_doc_id)
qed

lemma create_indexes_result:
  "create_indexes c = Inr c' \<Longrightarrow>
     docs c' = docs c \<and> (''deal_id'', True, True) \<in> set (indexes c') \<and>
     distinct (index_keys c ''deal_id'' True)"
  by (auto simp: create_indexes_def create_index_def bind_exn_def split: if_splits)

lemma distinct_keys_with_id:
  "distinct (List.map_filter f xs) \<Longrightarrow> length (filter (\<lambda>x. f x = Some v) xs) \<le> 1"
proof (induction xs)
  case Nil
  then show ?case by simp
next
  case (Cons x xs)
  show ?case
  proof (cases "f x")
    case None
    then show ?thesis using Cons by (simp add: List.map_filter_simps)
  next
    case (Some u)
    then have d: "u \<notin> set (List.map_filter f xs)" "distinct (List.map_filter f xs)"
      using Cons.prems by (simp_all add: List.map_filter_simps)
    show ?thesis
    proof (cases "u = v")
      case True
      have "filter (\<lambda>x. f x = Some v) xs = []"
      proof (rule ccontr)
        assume "filter (\<lambda>x. f x = Some v) xs \<noteq> []"
        then obtain y where "y \<in> set xs" "f y = Some v"
          by (auto simp: filter_empty_conv)
        then have "v \<in> set (List.map_filter f xs)"
          by (force simp: List.map_filter_def)
        then show False using d(1) True by simp
      qed
      then show ?thesis using Some True by simp
    next
      case False
      then show ?thesis using Some Cons.IH[OF d(2)] by simp
    qed
  qed
qed

lemma main_registers_index:
  assumes "deals_main accepts clock response rows c = (0, st')"
  shows "(''deal_id'', True, True) \<in> set (indexes (dl_coll st'))"
    and "length (with_id (dl_coll st') v) \<le> 1"
proof -
  let ?c0 = "if 0 < count_documents c \<and> map lower_char response = ''y'' then delete_many c else c"
  let ?st = "deals_loop accepts clock 0 rows
               \<lparr>dl_coll = ?c0, dl_imported = 0, dl_skipped = 0,
                  dl_out = (if 0 < count_documents c \<and> map lower_char response = ''y''
                            then [Cleared] else [])\<rparr>"
  from assms obtain c' where ci: "create_indexes (dl_coll ?st) = Inr c'" and c': "dl_coll st' = c'"
    by (auto simp: deals_main_def Let_def split: sum.splits)
  from create_indexes_result[OF ci]
  have r: "docs c' = docs (dl_coll ?st)" "(''deal_id'', True, True) \<in> set (indexes c')"
      "distinct (index_keys (dl_coll ?st) ''deal_id'' True)"
    by simp_all
  show "(''deal_id'', True, True) \<in> set (indexes (dl_coll st'))"
    using r(2) c' by simp
  have "distinct (List.map_filter (\<lambda>d. map_of d ''deal_id'') (docs c'))"
    using r(1,3) by (simp add: index_keys_def)
  from distinct_keys_with_id[OF this, of v]
  show "length (with_id (dl_coll st') v) \<le> 1"
    by (simp add: with_id_def c')
qed

text \<open>
  Claim C2, amended. For a non-empty deal identifier the loop keeps the identifier
  unique: if no non-empty identifier occurs twice in the collection before the loop, none
  does after it, for any rows and any store. Two rows with the same non-empty
  identifier, read when the collection holds no document with it and the store takes the
  first insertion, leave exactly one document with that identifier: the first row is
  imported, the second is counted as skipped and reported as such, not as an error, and
  nothing is inserted for it. This is the work of the lookup before the insertion alone:
  the loop registers no index, and the unique index on the identifier is registered only
  after the loop; when \<open>main\<close> ends with status 0 that index is registered and no
  identifier at all occurs in two documents. Rows with an empty identifier are not
  looked up and are outside this guarantee.
\<close>

theorem nonempty_identifier_imported_once:
  "(unique_ids (dl_coll st) \<longrightarrow> unique_ids (dl_coll (deals_loop accepts clock i rows st))) \<and>
   indexes (dl_coll (deals_loop accepts clock i rows st)) = indexes (dl_coll st) \<and>
   (ident \<noteq> [] \<and> row1 ''Deal - ID'' = Some (Some ident) \<and> row2 ''Deal - ID'' = Some (Some ident) \<and>
    transform_deal_row (clock i) row1 = (Inr d1, w1) \<and>
    transform_deal_row (clock (Suc i)) row2 = (Inr d2, w2) \<and>
    with_id (dl_coll st) (PStr ident) = [] \<and> accepts (dl_coll st) d1 \<longrightarrow>
      with_id (dl_coll (deals_loop accepts clock i [row1, row2] st)) (PStr ident) = [d1] \<and>
      docs (dl_coll (deals_loop accepts clock i [row1, row2] st)) = docs (dl_coll st) @ [d1] \<and>
      dl_imported (deals_loop accepts clock i [row1, row2] st) = dl_imported st + 1 \<and>
      dl_skipped (deals_loop accepts clock i [row1, row2] st) = dl_skipped st + 1 \<and>
      dl_out (deals_loop accepts clock i [row1, row2] st)
        = dl_out st @ w1 @
            (if (dl_imported st + 1) mod 10 = 0 then [Progress (dl_imported st + 1)] else [])
            @ w2 @ [Skipping (PStr ident)]) \<and>
   (deals_main accepts clock response rows c = (0, st') \<longrightarrow>
      (''deal_id'', True, True) \<in> set (indexes (dl_coll st')) \<and>
      length (with_id (dl_coll st') v) \<le> 1)"
proof (intro conjI impI)
  show "unique_ids (dl_coll (deals_loop accepts clock i rows st))" if "unique_ids (dl_coll st)"
    using that by (rule loop_unique_ids)
  show "indexes (dl_coll (deals_loop accepts clock i rows st)) = indexes (dl_coll st)"
    by (rule loop_indexes)
  show "(''deal_id'', True, True) \<in> set (indexes (dl_coll st'))"
    if "deals_main accepts clock response rows c = (0, st')"
    using that by (rule main_registers_index(1))
  show "length (with_id (dl_coll st') v) \<le> 1"
    if "deals_main accepts clock response rows c = (0, st')"
    using that by (rule main_registers_index(2))
next
  assume h: "ident \<noteq> [] \<and> row1 ''Deal - ID'' = Some (Some ident) \<and>
    row2 ''Deal - ID'' = Some (Some ident) \<and>
    transform_deal_row (clock i) row1 = (Inr d1, w1) \<and>
    transform_deal_row (clock (Suc i)) row2 = (Inr d2, w2) \<and>
    with_id (dl_coll st) (PStr ident) = [] \<and> accepts (dl_coll st) d1"
  then have t1: "transform_deal_row (clock i) row1 = (Inr d1, w1)"
    and t2: "transform_deal_row (clock (Suc i)) row2 = (Inr d2, w2)" by simp_all
  have v1: "map_of d1 ''deal_id'' = Some (PStr ident)"
    using deal_id_field[OF t1] h by (auto simp: of_raw_def)
  have v2: "map_of d2 ''deal_id'' = Some (PStr ident)"
    using deal_id_field[OF t2] h by (auto simp: of_raw_def)
  have f1: "\<not> truthy (PStr ident) \<or> find_one (dl_coll st) ''deal_id'' (PStr ident) = None"
    using h by (simp add: find_one_with_id)
  have a1: "accepts (dl_coll st) d1" using h by simp
  let ?st1 = "deals_step accepts (clock i) row1 st"
  have s1: "?st1 = st\<lparr>dl_coll := (dl_coll st)\<lparr>docs := docs (dl_coll st) @ [d1]\<rparr>,
                 dl_imported := dl_imported st + 1,
                 dl_out := dl_out st @ w1 @
                   (if (dl_imported st + 1) mod 10 = 0 then [Progress (dl_imported st + 1)] else [])\<rparr>"
    by (rule step_insert[where accepts = accepts, OF t1 v1 f1 a1])
  have w1: "with_id (dl_coll ?st1) (PStr ident) = [d1]"
    using h v1 by (simp add: s1 with_id_append)
  then have f2: "find_one (dl_coll ?st1) ''deal_id'' (PStr ident) \<noteq> None"
    by (simp add: find_one_with_id)
  have tr: "truthy (PStr ident)" using h by simp
  have s2: "deals_step accepts (clock (Suc i)) row2 ?st1
              = ?st1\<lparr>dl_skipped := dl_skipped ?st1 + 1,
                      dl_out := dl_out ?st1 @ w2 @ [Skipping (PStr ident)]\<rparr>"
    by (rule step_skip[OF t2 v2 tr f2])
  have l: "deals_loop accepts clock i [row1, row2] st
             = ?st1\<lparr>dl_skipped := dl_skipped ?st1 + 1,
                     dl_out := dl_out ?st1 @ w2 @ [Skipping (PStr ident)]\<rparr>"
    using s2 by simp
  show "with_id (dl_coll (deals_loop accepts clock i [row1, row2] st)) (PStr ident) = [d1]"
    unfolding l using w1 by simp
  show "docs (dl_coll (deals_loop accepts clock i [row1, row2] st)) = docs (dl_coll st) @ [d1]"
    unfolding l by (simp add: s1)
  show "dl_imported (deals_loop accepts clock i [row1, row2] st) = dl_imported st + 1"
    unfolding l by (simp add: s1)
  show "dl_skipped (deals_loop accepts clock i [row1, row2] st) = dl_skipped st + 1"
    unfolding l by (simp add: s1)
  show "dl_out (deals_loop accepts clock i [row1, row2] st)
        = dl_out st @ w1 @
            (if (dl_imported st + 1) mod 10 = 0 then [Progress (dl_imported st + 1)] else [])
            @ w2 @ [Skipping (PStr ident)]"
    unfolding l by (simp add: s1)
qed

lemma example_rows_same_identifier:
  "deals_loop accept_all example_clock 0 [deal_row ''7'', deal_row ''7'']
       \<lparr>dl_coll = \<lparr>docs = [], indexes = []\<rparr>, dl_imported = 0, dl_skipped = 0, dl_out = []\<rparr>
     = \<lparr>dl_coll = \<lparr>docs = [deal_doc ''7'' example_time], indexes = []\<rparr>,
        dl_imported = 1, dl_skipped = 1, dl_out = [Skipping (PStr ''7'')]\<rparr>"
proof -
  let ?st0 = "\<lparr>dl_coll = \<lparr>docs = [], indexes = []\<rparr>, dl_imported = 0, dl_skipped = 0,
                dl_out = []\<rparr>"
  let ?st1 = "\<lparr>dl_coll = \<lparr>docs = [deal_doc ''7'' example_time], indexes = []\<rparr>,
               dl_imported = 1, dl_skipped = 0, dl_out = []\<rparr>"
  have f: "find_one (dl_coll ?st0) ''deal_id'' (PStr ''7'') = None \<or> ''7'' = []"
    by (simp add: find_one_def)
  have a: "accept_all (dl_coll ?st0) (deal_doc ''7'' example_time)"
    by (simp add: accept_all_def)
  have m: "(dl_imported ?st0 + 1) mod 10 \<noteq> 0"
    by simp
  have 1: "deals_step accept_all example_time (deal_row ''7'') ?st0 = ?st1"
    using step_example_insert[where accepts = accept_all, OF f a m] by simp
  have t: "truthy (PStr ''7'')" by simp
  have g: "find_one (dl_coll ?st1) ''deal_id'' (PStr ''7'') \<noteq> None"
    by (simp add: find_one_def deal_doc_id)
  have 2: "deals_step accept_all example_time (deal_row ''7'') ?st1
             = \<lparr>dl_coll = \<lparr>docs = [deal_doc ''7'' example_time], indexes = []\<rparr>,
                dl_imported = 1, dl_skipped = 1, dl_out = [Skipping (PStr ''7'')]\<rparr>"
    using step_skip[where accepts = accept_all, OF deal_row_transform deal_doc_id t g] by simp
  have "deals_loop accept_all example_clock 0 [deal_row ''7'', deal_row ''7''] ?st0
          = deals_step accept_all example_time (deal_row ''7'')
              (deals_step accept_all example_time (deal_row ''7'') ?st0)"
    by (simp add: example_clock_def)
  then show ?thesis
    unfolding 1 2 .
qed

lemma example_main_same_identifier:
  "deals_main accept_all example_clock ''n'' [deal_row ''7'', deal_row ''7''] empty_collection
     = (0, \<lparr>dl_coll = \<lparr>docs = [deal_doc ''7'' example_time],
                        indexes = [(''deal_id'', True, True), (''status'', False, False),
                                   (''owner'', False, False), (''organization'', False, False),
                                   (''created_date'', False, False)]\<rparr>,
             dl_imported = 1, dl_skipped = 1,
             dl_out = [Skipping (PStr ''7''), Summary 1 1 1, Indexes_created]\<rparr>)"
proof -
  have c: "count_documents empty_collection = 0"
    by (simp add: count_documents_def empty_collection_def)
  have i: "create_indexes \<lparr>docs = [deal_doc ''7'' example_time], indexes = []\<rparr>
             = Inr \<lparr>docs = [deal_doc ''7'' example_time],
                    indexes = [(''deal_id'', True, True), (''status'', False, False),
                               (''owner'', False, False), (''organization'', False, False),
                               (''created_date'', False, False)]\<rparr>"
    by (simp add: create_indexes_def create_index_def bind_exn_def index_keys_def deal_doc_id)
  show ?thesis
    unfolding deals_main_def Let_def c
    by (simp add: empty_collection_def example_rows_same_identifier i count_documents_def
          del: deals_loop.simps)
qed

theorem nonempty_identifier_imported_once_witness:
  "unique_ids (dl_coll (deals_start empty_collection)) \<and>
   unique_ids (dl_coll (deals_loop accept_all example_clock 0 [deal_row ''7'', deal_row ''7'']
                          (deals_start empty_collection))) \<and>
   ''7'' \<noteq> [] \<and> deal_row ''7'' ''Deal - ID'' = Some (Some ''7'') \<and>
   transform_deal_row (example_clock 0) (deal_row ''7'') = (Inr (deal_doc ''7'' example_time), []) \<and>
   with_id (dl_coll (deals_start empty_collection)) (PStr ''7'') = [] \<and>
   accept_all (dl_coll (deals_start empty_collection)) (deal_doc ''7'' example_time) \<and>
   with_id (dl_coll (deals_loop accept_all example_clock 0 [deal_row ''7'', deal_row ''7'']
                       (deals_start empty_collection))) (PStr ''7'')
     = [deal_doc ''7'' example_time] \<and>
   docs (dl_coll (deals_loop accept_all example_clock 0 [deal_row ''7'', deal_row ''7'']
                    (deals_start empty_collection))) = [deal_doc ''7'' example_time] \<and>
   dl_imported (deals_loop accept_all example_clock 0 [deal_row ''7'', deal_row ''7'']
                  (deals_start empty_collection)) = 1 \<and>
   dl_skipped (deals_loop accept_all example_clock 0 [deal_row ''7'', deal_row ''7'']
                 (deals_start empty_collection)) = 1 \<and>
   dl_out (deals_loop accept_all example_clock 0 [deal_row ''7'', deal_row ''7'']
             (deals_start empty_collection)) = [Skipping (PStr ''7'')] \<and>
   fst (deals_main accept_all example_clock ''n'' [deal_row ''7'', deal_row ''7''] empty_collection)
     = 0 \<and>
   (''deal_id'', True, True)
     \<in> set (indexes (dl_coll (snd (deals_main accept_all example_clock ''n''
                                     [deal_row ''7'', deal_row ''7''] empty_collection)))) \<and>
   length (with_id (dl_coll (snd (deals_main accept_all example_clock ''n''
                                    [deal_row ''7'', deal_row ''7''] empty_collection)))
             (PStr ''7'')) \<le> 1"
proof -
  let ?rows = "[deal_row ''7'', deal_row ''7'']"
  let ?st = "deals_start empty_collection"
  let ?st' = "snd (deals_main accept_all example_clock ''n'' ?rows empty_collection)"
  have u: "unique_ids (dl_coll ?st)"
    by (simp add: unique_ids_def with_id_def deals_start_def empty_collection_def)
  have r: "deal_row ''7'' ''Deal - ID'' = Some (Some ''7'')"
    by (simp add: deal_row_def deal_columns_def)
  have t: "transform_deal_row (example_clock 0) (deal_row ''7'') = (Inr (deal_doc ''7'' example_time), [])"
          "transform_deal_row (example_clock (Suc 0)) (deal_row ''7'')
             = (Inr (deal_doc ''7'' example_time), [])"
    by (simp_all add: example_clock_def deal_row_transform)
  have w: "with_id (dl_coll ?st) (PStr ''7'') = []"
    by (simp add: with_id_def deals_start_def empty_collection_def)
  have a: "accept_all (dl_coll ?st) (deal_doc ''7'' example_time)"
    by (simp add: accept_all_def)
  have m: "deals_main accept_all example_clock ''n'' ?rows empty_collection = (0, ?st')"
    by (simp add: example_main_same_identifier)
  have fm: "fst (deals_main accept_all example_clock ''n'' ?rows empty_collection) = 0"
    by (simp add: example_main_same_identifier)
  have s: "dl_imported ?st = 0" "dl_skipped ?st = 0" "dl_out ?st = []" "docs (dl_coll ?st) = []"
    by (simp_all add: deals_start_def empty_collection_def)
  show ?thesis
    using nonempty_identifier_imported_once[where st = ?st and accepts = accept_all
            and clock = example_clock and i = 0 and rows = ?rows and ident = "''7''"
            and ?row1.0 = "deal_row ''7''" and ?row2.0 = "deal_row ''7''"
            and ?d1.0 = "deal_doc ''7'' example_time" and ?d2.0 = "deal_doc ''7'' example_time"
            and ?w1.0 = "[]" and ?w2.0 = "[]" and response = "''n''" and c = empty_collection
            and st' = ?st' and v = "PStr ''7''"]
          u r t w a m s fm
    by (simp del: deals_loop.simps)
qed

section \<open>Properties of the quote stripping\<close>

lemma all_same_replicate: "(\<And>y. y \<in> set xs \<Longrightarrow> y = x) \<Longrightarrow> xs = replicate (length xs) x"
  by (induction xs) auto

lemma strip_char_shape:
  "\<exists>i j. s = replicate i q @ strip_char q s @ replicate j q \<and>
         (strip_char q s = [] \<or> (hd (strip_char q s) \<noteq> q \<and> last (strip_char q s) \<noteq> q))"
proof -
  let ?P = "\<lambda>c. c = q"
  let ?a = "takeWhile ?P s" and ?b = "dropWhile ?P s"
  let ?c = "takeWhile ?P (rev ?b)" and ?d = "dropWhile ?P (rev ?b)"
  have a: "?a = replicate (length ?a) q"
    by (rule all_same_replicate) (auto dest: set_takeWhileD)
  have c: "?c = replicate (length ?c) q"
    by (rule all_same_replicate) (auto dest: set_takeWhileD)
  have st: "strip_char q s = rev ?d"
    by (simp add: strip_char_def)
  have "rev ?b = ?c @ ?d" by simp
  then have "?b = rev ?d @ rev ?c"
    by (metis rev_append rev_rev_ident)
  moreover have "rev ?c = replicate (length ?c) q"
    using c by (metis rev_replicate)
  ultimately have b: "?b = strip_char q s @ replicate (length ?c) q"
    using st by simp
  have "s = ?a @ ?b" by simp
  then have s: "s = replicate (length ?a) q @ strip_char q s @ replicate (length ?c) q"
    using a b by metis
  have e: "hd (strip_char q s) \<noteq> q \<and> last (strip_char q s) \<noteq> q" if n: "strip_char q s \<noteq> []"
  proof -
    have dn: "?d \<noteq> []" using n st by simp
    then have "hd ?d \<noteq> q" using hd_dropWhile[of ?P "rev ?b"] by simp
    then have l: "last (strip_char q s) \<noteq> q"
      using dn st by (simp add: last_rev)
    have bn: "?b \<noteq> []" using b n by (metis append_is_Nil_conv)
    then have "hd ?b \<noteq> q" using hd_dropWhile[of ?P s] by simp
    moreover have "hd ?b = hd (strip_char q s)"
      using b n by (metis hd_append2)
    ultimately show ?thesis using l by simp
  qed
  show ?thesis
    using s e by blast
qed

lemma document_stripped_field:
  assumes "clockodo_document now row = Inr d" "(k, col) \<in> set stripped_columns"
  shows "\<exists>s. row col = Some (Some s) \<and> map_of d k = Some (PStr (strip_char quote s))"
  using assms unfolding clockodo_document_def stripped_columns_def
  by (auto simp: bind_exn_def getitem_def strip_quotes_def split: sum.splits option.splits)

lemma document_month_label:
  assumes "clockodo_document now row = Inr d"
  shows "\<exists>v. row ''Monat'' = Some v \<and> map_of d ''monat'' = Some (of_raw v)"
  using assms unfolding clockodo_document_def
  by (auto simp: bind_exn_def getitem_def strip_quotes_def split: sum.splits option.splits)

lemma document_hours:
  assumes "clockodo_document now row = Inr d"
  shows "\<exists>v x. row ''Stunden'' = Some v \<and> parse_german_number v = Inr x \<and>
               map_of d ''stunden'' = Some (PFloat x)"
  using assms unfolding clockodo_document_def
  by (auto simp: bind_exn_def getitem_def strip_quotes_def split: sum.splits option.splits)

lemma document_month_date:
  assumes "clockodo_document now row = Inr d"
  shows "\<exists>v md. row ''Monat'' = Some v \<and> parse_month v = Inr md \<and>
               map_of d ''monat_date'' = Some (of_date md)"
  using assms unfolding clockodo_document_def
  by (auto simp: bind_exn_def getitem_def strip_quotes_def split: sum.splits option.splits)

lemma document_revenue:
  assumes "clockodo_document now row = Inr d"
  shows "\<exists>s x. row ''Umsatz in EUR'' = Some (Some s) \<and>
               parse_german_number (Some (strip_char quote s)) = Inr x \<and>
               map_of d ''umsatz_eur'' = Some (PFloat x)"
  using assms unfolding clockodo_document_def
  by (auto simp: bind_exn_def getitem_def strip_quotes_def split: sum.splits option.splits)

lemma quoted_row_document:
  "clockodo_document now (quoted_row ''1,5'' [quote, CHR ''1'', CHR ''0'', CHR ''0'', CHR '','', CHR ''0'', CHR ''0'', quote])
     = Inr [(''kunde'', PStr ''ACME''), (''projekt'', PStr ''Web''),
            (''monat'', PStr ''2025-09''), (''monat_date'', PDate (month_start 2025 9)),
            (''leistung'', PStr ''Dev''), (''mitarbeiter'', PStr ''Eva''),
            (''stunden'', PFloat (Finite (3 / 2))), (''umsatz_eur'', PFloat (Finite 100)),
            (''imported_at'', PDate now)]"
proof -
  have s: "strip_char quote ''Web'' = ''Web''" "strip_char quote ''Dev'' = ''Dev''"
          "strip_char quote ''Eva'' = ''Eva''"
          "strip_char quote [quote, CHR ''1'', CHR ''0'', CHR ''0'', CHR '','', CHR ''0'', CHR ''0'', quote]
             = ''100,00''"
          "strip_char quote [quote, quote, CHR ''A'', CHR ''C'', CHR ''M'', CHR ''E'', quote, quote]
             = ''ACME''"
    by (simp_all add: strip_char_def quote_def)
  show ?thesis
    by (simp add: clockodo_document_def bind_exn_def getitem_def timesheet_row_def quoted_row_def
          strip_quotes_def s month_2025_09 number_1_5 number_100_00 of_raw_def of_date_def)
qed

lemma number_quoted_1_5:
  "parse_german_number (Some [quote, CHR ''1'', CHR '','', CHR ''5'', quote]) = Inl ValueError"
proof -
  have "py_float [quote, CHR ''1'', CHR ''.'', CHR ''5'', quote] = None"
    by (simp add: py_float_def float_strip_def float_space_def parse_float_body_def
          split_sign_def lower_char_def parse_finite_def is_digit_def digits_def quote_def)
  then show ?thesis
    by (simp add: parse_german_number_def replace_char_def quote_def)
qed

lemma quoted_hours_row_raises:
  "clockodo_document now (quoted_row [quote, CHR ''1'', CHR '','', CHR ''5'', quote] ''100,00'')
     = Inl ValueError"
proof -
  have s: "strip_char quote ''Web'' = ''Web''" "strip_char quote ''Dev'' = ''Dev''"
          "strip_char quote ''Eva'' = ''Eva''"
          "strip_char quote [quote, quote, CHR ''A'', CHR ''C'', CHR ''M'', CHR ''E'', quote, quote]
             = ''ACME''"
    by (simp_all add: strip_char_def quote_def)
  show ?thesis
    by (simp add: clockodo_document_def bind_exn_def getitem_def timesheet_row_def quoted_row_def
          strip_quotes_def s month_2025_09 number_quoted_1_5)
qed

text \<open>
  Claim C1, as stated, fails: a customer text with two layers of quotes around it loses
  both layers in the timesheet document, where stripping exactly one layer would leave
  one.
\<close>

theorem strip_removes_every_layer_counterexample:
  "strip_one_layer quote ([quote, quote] @ ''ACME'' @ [quote, quote]) = [quote] @ ''ACME'' @ [quote] \<and>
   clockodo_document example_time
       (timesheet_row ([quote, quote] @ ''ACME'' @ [quote, quote]) ''2025-09'' ''1,5'')
     = Inr [(''kunde'', PStr ''ACME''), (''projekt'', PStr ''Web''),
            (''monat'', PStr ''2025-09''), (''monat_date'', PDate (month_start 2025 9)),
            (''leistung'', PStr ''Dev''), (''mitarbeiter'', PStr ''Eva''),
            (''stunden'', PFloat (Finite (3 / 2))), (''umsatz_eur'', PFloat (Finite 100)),
            (''imported_at'', PDate example_time)] \<and>
   PStr ''ACME'' \<noteq> PStr (strip_one_layer quote ([quote, quote] @ ''ACME'' @ [quote, quote]))"
proof -
  have 1: "strip_one_layer quote ([quote, quote] @ ''ACME'' @ [quote, quote])
             = [quote] @ ''ACME'' @ [quote]"
    by (simp add: strip_one_layer_def quote_def)
  have 2: "strip_char quote [quote, quote, CHR ''A'', CHR ''C'', CHR ''M'', CHR ''E'', quote, quote]
             = ''ACME''"
    by (simp add: strip_char_def quote_def)
  have 3: "''ACME'' \<noteq> [quote] @ ''ACME'' @ [quote]"
    by simp
  show ?thesis
    unfolding 1 using 3 by (simp add: timesheet_row_document 2)
qed

text \<open>
  Claim C1, amended. In the timesheet document the customer, project, service and
  employee texts have every leading and every trailing quote character removed, however
  many there are, and nothing else: the text of the row is the stored text with some
  quotes before it and some after it, and the stored text neither begins nor ends with a
  quote. The revenue text is stripped in the same way before it is parsed as a number:
  the stored revenue is the number parsed from the stripped text. The month label is
  stored as it is read and the month date is parsed from it as it is read; the hours
  text is parsed as it is read, so the stored hours are the number parsed from the text
  of the row, quotes included. In the deal document every field is computed from the
  text of its column as it is read, and a text field is that text unchanged: the deal
  transformer strips nothing.
\<close>

theorem quote_stripping_by_variant:
  "(clockodo_document now row = Inr d \<and> (k, col) \<in> set stripped_columns \<longrightarrow>
      (\<exists>s t i j. row col = Some (Some s) \<and> map_of d k = Some (PStr t) \<and>
         s = replicate i quote @ t @ replicate j quote \<and>
         (t = [] \<or> (hd t \<noteq> quote \<and> last t \<noteq> quote)))) \<and>
   (clockodo_document now row = Inr d \<longrightarrow>
      (\<exists>s t i j x. row ''Umsatz in EUR'' = Some (Some s) \<and>
         s = replicate i quote @ t @ replicate j quote \<and>
         (t = [] \<or> (hd t \<noteq> quote \<and> last t \<noteq> quote)) \<and>
         parse_german_number (Some t) = Inr x \<and>
         map_of d ''umsatz_eur'' = Some (PFloat x))) \<and>
   (clockodo_document now row = Inr d \<longrightarrow>
      (\<exists>v x. row ''Stunden'' = Some v \<and> parse_german_number v = Inr x \<and>
             map_of d ''stunden'' = Some (PFloat x))) \<and>
   (clockodo_document now row = Inr d \<longrightarrow>
      (\<exists>v md. row ''Monat'' = Some v \<and> map_of d ''monat'' = Some (of_raw v) \<and>
              parse_month v = Inr md \<and> map_of d ''monat_date'' = Some (of_date md))) \<and>
   (transform_deal_row now' drow = (Inr dd, w) \<and> (dk, dcol, cv) \<in> set deal_columns \<longrightarrow>
      (\<exists>v. drow dcol = Some v \<and> map_of dd dk = Some (fst (convert cv v)) \<and>
           (cv = Str \<longrightarrow> map_of dd dk = Some (of_raw v))))"
proof (intro conjI impI)
  assume h: "clockodo_document now row = Inr d \<and> (k, col) \<in> set stripped_columns"
  then obtain s where s: "row col = Some (Some s)" "map_of d k = Some (PStr (strip_char quote s))"
    using document_stripped_field by blast
  obtain i j where "s = replicate i quote @ strip_char quote s @ replicate j quote"
      "strip_char quote s = [] \<or>
       (hd (strip_char quote s) \<noteq> quote \<and> last (strip_char quote s) \<noteq> quote)"
    using strip_char_shape[of s quote] by blast
  then show "\<exists>s t i j. row col = Some (Some s) \<and> map_of d k = Some (PStr t) \<and>
         s = replicate i quote @ t @ replicate j quote \<and>
         (t = [] \<or> (hd t \<noteq> quote \<and> last t \<noteq> quote))"
    using s by blast
next
  assume "clockodo_document now row = Inr d"
  then obtain s x where s: "row ''Umsatz in EUR'' = Some (Some s)"
      "parse_german_number (Some (strip_char quote s)) = Inr x"
      "map_of d ''umsatz_eur'' = Some (PFloat x)"
    using document_revenue by blast
  obtain i j where "s = replicate i quote @ strip_char quote s @ replicate j quote"
      "strip_char quote s = [] \<or>
       (hd (strip_char quote s) \<noteq> quote \<and> last (strip_char quote s) \<noteq> quote)"
    using strip_char_shape[of s quote] by blast
  then show "\<exists>s t i j x. row ''Umsatz in EUR'' = Some (Some s) \<and>
         s = replicate i quote @ t @ replicate j quote \<and>
         (t = [] \<or> (hd t \<noteq> quote \<and> last t \<noteq> quote)) \<and>
         parse_german_number (Some t) = Inr x \<and>
         map_of d ''umsatz_eur'' = Some (PFloat x)"
    using s by blast
next
  assume "clockodo_document now row = Inr d"
  then show "\<exists>v x. row ''Stunden'' = Some v \<and> parse_german_number v = Inr x \<and>
             map_of d ''stunden'' = Some (PFloat x)"
    by (rule document_hours)
next
  assume a: "clockodo_document now row = Inr d"
  obtain v where v: "row ''Monat'' = Some v" "map_of d ''monat'' = Some (of_raw v)"
    using document_month_label[OF a] by blast
  obtain v' md where m: "row ''Monat'' = Some v'" "parse_month v' = Inr md"
      "map_of d ''monat_date'' = Some (of_date md)"
    using document_month_date[OF a] by blast
  have "v' = v" using v(1) m(1) by simp
  then show "\<exists>v md. row ''Monat'' = Some v \<and> map_of d ''monat'' = Some (of_raw v) \<and>
              parse_month v = Inr md \<and> map_of d ''monat_date'' = Some (of_date md)"
    using v m by blast
next
  assume h: "transform_deal_row now' drow = (Inr dd, w) \<and> (dk, dcol, cv) \<in> set deal_columns"
  then obtain v where v: "drow dcol = Some v" "map_of dd dk = Some (fst (convert cv v))"
    using deal_field by blast
  then have "cv = Str \<longrightarrow> map_of dd dk = Some (of_raw v)" by auto
  then show "\<exists>v. drow dcol = Some v \<and> map_of dd dk = Some (fst (convert cv v)) \<and>
           (cv = Str \<longrightarrow> map_of dd dk = Some (of_raw v))"
    using v by blast
qed

theorem quote_stripping_by_variant_witness:
  "clockodo_document example_time (quoted_row ''1,5'' ([quote] @ ''100,00'' @ [quote]))
     = Inr [(''kunde'', PStr ''ACME''), (''projekt'', PStr ''Web''),
            (''monat'', PStr ''2025-09''), (''monat_date'', PDate (month_start 2025 9)),
            (''leistung'', PStr ''Dev''), (''mitarbeiter'', PStr ''Eva''),
            (''stunden'', PFloat (Finite (3 / 2))), (''umsatz_eur'', PFloat (Finite 100)),
            (''imported_at'', PDate example_time)] \<and>
   (''kunde'', ''Kunde'') \<in> set stripped_columns \<and>
   (\<exists>t i j. [quote, quote] @ ''ACME'' @ [quote, quote] = replicate i quote @ t @ replicate j quote \<and>
      (t = [] \<or> (hd t \<noteq> quote \<and> last t \<noteq> quote))) \<and>
   (\<exists>t i j. [quote] @ ''100,00'' @ [quote] = replicate i quote @ t @ replicate j quote \<and>
      (t = [] \<or> (hd t \<noteq> quote \<and> last t \<noteq> quote)) \<and>
      parse_german_number (Some t) = Inr (Finite 100)) \<and>
   parse_german_number (Some ''1,5'') = Inr (Finite (3 / 2)) \<and>
   parse_month (Some ''2025-09'') = Inr (Some (month_start 2025 9)) \<and>
   clockodo_document example_time (quoted_row ([quote] @ ''1,5'' @ [quote]) ''100,00'')
     = Inl ValueError \<and>
   transform_deal_row example_time (deal_row ([quote] @ ''7'' @ [quote]))
     = (Inr (deal_doc ([quote] @ ''7'' @ [quote]) example_time), []) \<and>
   (''deal_id'', ''Deal - ID'', Str) \<in> set deal_columns \<and>
   map_of (deal_doc ([quote] @ ''7'' @ [quote]) example_time) ''deal_id''
     = Some (PStr ([quote] @ ''7'' @ [quote]))"
proof -
  let ?q = "[quote, quote] @ ''ACME'' @ [quote, quote]"
  let ?u = "[quote] @ ''100,00'' @ [quote]"
  let ?row = "quoted_row ''1,5'' ?u"
  let ?d = "[(''kunde'', PStr ''ACME''), (''projekt'', PStr ''Web''),
            (''monat'', PStr ''2025-09''), (''monat_date'', PDate (month_start 2025 9)),
            (''leistung'', PStr ''Dev''), (''mitarbeiter'', PStr ''Eva''),
            (''stunden'', PFloat (Finite (3 / 2))), (''umsatz_eur'', PFloat (Finite 100)),
            (''imported_at'', PDate example_time)]"
  let ?i = "[quote] @ ''7'' @ [quote]"
  have c: "clockodo_document example_time ?row = Inr ?d"
    using quoted_row_document[of example_time] by simp
  have m: "(''kunde'', ''Kunde'') \<in> set stripped_columns"
    by (simp add: stripped_columns_def)
  have r: "?row ''Kunde'' = Some (Some ?q)" "?row ''Umsatz in EUR'' = Some (Some ?u)"
      "?row ''Stunden'' = Some (Some ''1,5'')" "?row ''Monat'' = Some (Some ''2025-09'')"
    by (simp_all add: quoted_row_def timesheet_row_def)
  have t: "transform_deal_row example_time (deal_row ?i) = (Inr (deal_doc ?i example_time), [])"
    by (rule deal_row_transform)
  have n: "(''deal_id'', ''Deal - ID'', Str) \<in> set deal_columns"
    by (simp add: deal_columns_def)
  have dr: "deal_row ?i ''Deal - ID'' = Some (Some ?i)"
    by (simp add: deal_row_def deal_columns_def)
  note main = quote_stripping_by_variant[of example_time ?row ?d "''kunde''" "''Kunde''"
                example_time "deal_row ?i" "deal_doc ?i example_time" "[]"
                "''deal_id''" "''Deal - ID''" Str]
  have "\<exists>s t i j. ?row ''Kunde'' = Some (Some s) \<and> map_of ?d ''kunde'' = Some (PStr t) \<and>
         s = replicate i quote @ t @ replicate j quote \<and>
         (t = [] \<or> (hd t \<noteq> quote \<and> last t \<noteq> quote))"
    using main[THEN conjunct1] c m by blast
  then obtain s0 t0 i0 j0 where o: "?row ''Kunde'' = Some (Some s0)"
      "s0 = replicate i0 quote @ t0 @ replicate j0 quote"
      "t0 = [] \<or> (hd t0 \<noteq> quote \<and> last t0 \<noteq> quote)"
    by blast
  have "s0 = ?q" using o(1) r(1) by simp
  then have a: "\<exists>t i j. ?q = replicate i quote @ t @ replicate j quote \<and>
      (t = [] \<or> (hd t \<noteq> quote \<and> last t \<noteq> quote))"
    using o(2,3) by blast
  have "\<exists>s t i j x. ?row ''Umsatz in EUR'' = Some (Some s) \<and>
         s = replicate i quote @ t @ replicate j quote \<and>
         (t = [] \<or> (hd t \<noteq> quote \<and> last t \<noteq> quote)) \<and>
         parse_german_number (Some t) = Inr x \<and>
         map_of ?d ''umsatz_eur'' = Some (PFloat x)"
    using main[THEN conjunct2, THEN conjunct1] c by blast
  then obtain s1 t1 i1 j1 x1 where u: "?row ''Umsatz in EUR'' = Some (Some s1)"
      "s1 = replicate i1 quote @ t1 @ replicate j1 quote"
      "t1 = [] \<or> (hd t1 \<noteq> quote \<and> last t1 \<noteq> quote)"
      "parse_german_number (Some t1) = Inr x1"
      "map_of ?d ''umsatz_eur'' = Some (PFloat x1)"
    by blast
  have "s1 = ?u" using u(1) r(2) by simp
  moreover have "x1 = Finite 100" using u(5) by simp
  ultimately have b: "\<exists>t i j. ?u = replicate i quote @ t @ replicate j quote \<and>
      (t = [] \<or> (hd t \<noteq> quote \<and> last t \<noteq> quote)) \<and>
      parse_german_number (Some t) = Inr (Finite 100)"
    using u(2,3,4) by blast
  have "\<exists>v x. ?row ''Stunden'' = Some v \<and> parse_german_number v = Inr x \<and>
             map_of ?d ''stunden'' = Some (PFloat x)"
    using main[THEN conjunct2, THEN conjunct2, THEN conjunct1] c by blast
  then obtain v2 x2 where hh: "?row ''Stunden'' = Some v2" "parse_german_number v2 = Inr x2"
      "map_of ?d ''stunden'' = Some (PFloat x2)"
    by blast
  have "v2 = Some ''1,5''" using hh(1) r(3) by simp
  moreover have "x2 = Finite (3 / 2)" using hh(3) by simp
  ultimately have e: "parse_german_number (Some ''1,5'') = Inr (Finite (3 / 2))"
    using hh(2) by simp
  have "\<exists>v md. ?row ''Monat'' = Some v \<and> map_of ?d ''monat'' = Some (of_raw v) \<and>
              parse_month v = Inr md \<and> map_of ?d ''monat_date'' = Some (of_date md)"
    using main[THEN conjunct2, THEN conjunct2, THEN conjunct2, THEN conjunct1] c by blast
  then obtain v3 md where mm: "?row ''Monat'' = Some v3" "parse_month v3 = Inr md"
      "map_of ?d ''monat_date'' = Some (of_date md)"
    by blast
  have "v3 = Some ''2025-09''" using mm(1) r(4) by simp
  moreover have "md = Some (month_start 2025 9)"
    using mm(3) by (cases md) (simp_all add: of_date_def)
  ultimately have f: "parse_month (Some ''2025-09'') = Inr (Some (month_start 2025 9))"
    using mm(2) by simp
  have g: "clockodo_document example_time (quoted_row ([quote] @ ''1,5'' @ [quote]) ''100,00'')
             = Inl ValueError"
    using quoted_hours_row_raises[of example_time] by simp
  have "\<exists>v. deal_row ?i ''Deal - ID'' = Some v \<and>
          map_of (deal_doc ?i example_time) ''deal_id'' = Some (fst (convert Str v)) \<and>
          (Str = Str \<longrightarrow> map_of (deal_doc ?i example_time) ''deal_id'' = Some (of_raw v))"
    using main[THEN conjunct2, THEN conjunct2, THEN conjunct2, THEN conjunct2] t n by blast
  then obtain v0 where p: "deal_row ?i ''Deal - ID'' = Some v0"
      "map_of (deal_doc ?i example_time) ''deal_id'' = Some (of_raw v0)"
    by blast
  have "v0 = Some ?i" using p(1) dr by simp
  then have k: "map_of (deal_doc ?i example_time) ''deal_id'' = Some (PStr ?i)"
    using p(2) by (simp add: of_raw_def)
  show ?thesis
    using c m a b e f g t n k by blast
qed

end
